theory Spec2Isabelle
  imports Complex_Main "HOL-Library.Multiset"
begin

section \<open>Data model (types.ts)\<close>

text \<open>
  A JavaScript number, as far as the router looks at one: \<open>NaN\<close>, the two infinities and
  the finite values. Negative zero is identified with zero (both are falsy).
\<close>

datatype number = NaN | PosInfinity | NegInfinity | Fin rat

datatype pvalue = PStr string | PNum number

type_synonym params = "(string \<times> pvalue) list"

text \<open>\<open>interface Tab { path: string; params?: Record<string, string | number> }\<close>;
  an absent \<open>params\<close> is \<open>None\<close>.\<close>

record Tab =
  path :: string
  params :: "params option"

text \<open>
  One position of a JavaScript array of tabs. The type \<open>Tab[]\<close> promises an \<open>Entry\<close> at
  every position, but \<open>splice\<close> can put \<open>undefined\<close> into the array and an assignment past
  the end leaves holes, so both are values of the model.
\<close>

datatype slot = Hole | Undefined | is_Entry: Entry Tab

text \<open>\<open>interface TabsState { tabs: Tab[]; active_index: number }\<close>\<close>

record TabsState =
  tabs :: "slot list"
  active_index :: int

record config =
  storageKey :: string
  activeTabStorageKey :: string
  initialPath :: string

definition defaultConfig :: config where
  "defaultConfig =
     \<lparr>storageKey = ''tabrouter-tabs'',
      activeTabStorageKey = ''tabrouter-active-tab'',
      initialPath = ''/''\<rparr>"

datatype TabsAction =
    ADD_TAB Tab
  | REPLACE_TAB Tab
  | CLOSE_TAB string
  | CLOSE_OTHER_TABS string
  | SET_ACTIVE_TAB string
  | REORDER_TABS int int
  | UPDATE_TAB_PARAMS string "params option"

datatype error = TypeError | SyntaxError

section \<open>The array operations the reducer uses\<close>

text \<open>
  \<open>arr.findIndex((tab) => tab.path === p)\<close> visits every index from 0, holes included
  (a hole is read as \<open>undefined\<close>); reading \<open>.path\<close> of \<open>undefined\<close> throws a TypeError.
  The answer is the first index whose tab satisfies the test, or \<open>-1\<close>.
\<close>

fun findIndex_from :: "(Tab \<Rightarrow> bool) \<Rightarrow> slot list \<Rightarrow> int \<Rightarrow> error + int" where
  "findIndex_from p [] i = Inr (- 1)"
| "findIndex_from p (Entry t # xs) i = (if p t then Inr i else findIndex_from p xs (i + 1))"
| "findIndex_from p (Undefined # xs) i = Inl TypeError"
| "findIndex_from p (Hole # xs) i = Inl TypeError"

definition findIndex :: "(Tab \<Rightarrow> bool) \<Rightarrow> slot list \<Rightarrow> error + int" where
  "findIndex p arr = findIndex_from p arr 0"

text \<open>\<open>arr.find(...)\<close>: the first tab that satisfies the test, or \<open>undefined\<close> (\<open>None\<close>).\<close>

fun find_tab :: "(Tab \<Rightarrow> bool) \<Rightarrow> slot list \<Rightarrow> error + Tab option" where
  "find_tab p [] = Inr None"
| "find_tab p (Entry t # xs) = (if p t then Inr (Some t) else find_tab p xs)"
| "find_tab p (Undefined # xs) = Inl TypeError"
| "find_tab p (Hole # xs) = Inl TypeError"

text \<open>\<open>arr.map((tab, idx) => ...)\<close> does not call the function on a hole and keeps the hole.\<close>

fun map_idx_from :: "(slot \<Rightarrow> int \<Rightarrow> slot) \<Rightarrow> slot list \<Rightarrow> int \<Rightarrow> slot list" where
  "map_idx_from f [] i = []"
| "map_idx_from f (Hole # xs) i = Hole # map_idx_from f xs (i + 1)"
| "map_idx_from f (x # xs) i = f x i # map_idx_from f xs (i + 1)"

definition map_idx :: "(slot \<Rightarrow> int \<Rightarrow> slot) \<Rightarrow> slot list \<Rightarrow> slot list" where
  "map_idx f arr = map_idx_from f arr 0"

text \<open>\<open>arr.filter((_, idx) => ...)\<close> skips holes; the index is the one in the input array.\<close>

fun filter_idx_from :: "(slot \<Rightarrow> int \<Rightarrow> bool) \<Rightarrow> slot list \<Rightarrow> int \<Rightarrow> slot list" where
  "filter_idx_from f [] i = []"
| "filter_idx_from f (Hole # xs) i = filter_idx_from f xs (i + 1)"
| "filter_idx_from f (x # xs) i =
     (if f x i then x # filter_idx_from f xs (i + 1) else filter_idx_from f xs (i + 1))"

definition filter_idx :: "(slot \<Rightarrow> int \<Rightarrow> bool) \<Rightarrow> slot list \<Rightarrow> slot list" where
  "filter_idx f arr = filter_idx_from f arr 0"

text \<open>The spread \<open>[...arr]\<close> copies the array; the iterator reads a hole as \<open>undefined\<close>.\<close>

definition spread :: "slot list \<Rightarrow> slot list" where
  "spread arr = map (\<lambda>x. case x of Hole \<Rightarrow> Undefined | _ \<Rightarrow> x) arr"

text \<open>
  \<open>arr[i] = v\<close>. Inside the array the position is overwritten; at or past the end the array
  is extended, with holes in between; an index that is negative or above \<open>2^32 - 2\<close> is not
  an array index at all: the assignment creates a property that none of \<open>length\<close>,
  \<open>findIndex\<close>, \<open>map\<close>, \<open>filter\<close>, \<open>splice\<close>, spread and \<open>JSON.stringify\<close> sees, so the
  elements stay as they are.
\<close>

definition array_set :: "slot list \<Rightarrow> int \<Rightarrow> slot \<Rightarrow> slot list" where
  "array_set arr i v =
     (let len = int (length arr) in
      if 0 \<le> i \<and> i < len then arr[nat i := v]
      else if len \<le> i \<and> i \<le> 4294967294 then arr @ replicate (nat (i - len)) Hole @ [v]
      else arr)"

text \<open>
  \<open>arr.splice(start, deleteCount, ...items)\<close>: a negative \<open>start\<close> counts from the end,
  every index is clamped into \<open>[0, length]\<close>, the removed elements are returned and the array
  becomes the second component.
\<close>

definition splice :: "slot list \<Rightarrow> int \<Rightarrow> int \<Rightarrow> slot list \<Rightarrow> slot list \<times> slot list" where
  "splice arr start deleteCount items =
     (let len = int (length arr);
          actualStart = (if start < 0 then max (len + start) 0 else min start len);
          actualDeleteCount = min (max deleteCount 0) (len - actualStart);
          a = nat actualStart;
          d = nat actualDeleteCount
      in (take d (drop a arr), take a arr @ items @ drop (a + d) arr))"

text \<open>The position at which \<open>splice\<close> starts in an array of \<open>n\<close> elements.\<close>

definition splice_start :: "nat \<Rightarrow> int \<Rightarrow> nat" where
  "splice_start n start = nat (if start < 0 then max (int n + start) 0 else min start (int n))"

text \<open>The destructuring \<open>const [x] = arr\<close>: the first element, \<open>undefined\<close> if there is none.\<close>

fun first_of :: "slot list \<Rightarrow> slot" where
  "first_of [] = Undefined"
| "first_of (Hole # xs) = Undefined"
| "first_of (x # xs) = x"

section \<open>The reducer (TabRouterProvider: createTabsReducer)\<close>

text \<open>
  What the reducer writes: \<open>sessionStorage.setItem(key, value)\<close>, the value being
  \<open>JSON.stringify(tabs)\<close> or \<open>String(active_index)\<close>. The two serialisations are kept
  symbolic.
\<close>

datatype item_value = JSON_stringify "slot list" | String_of int

datatype effect = SetItem string item_value

text \<open>
  The \<open>switch\<close> of the reducer. \<open>Inl\<close> is a thrown exception, \<open>Inr None\<close> is one of the
  early \<open>return state\<close> exits, \<open>Inr (Some newState)\<close> is a branch that reaches \<open>break\<close>.
\<close>

fun transition :: "TabsState \<Rightarrow> TabsAction \<Rightarrow> error + TabsState option" where
  "transition state (ADD_TAB newTab) =
     (case findIndex (\<lambda>tab. path tab = path newTab) (tabs state) of
        Inl e \<Rightarrow> Inl e
      | Inr existingTab \<Rightarrow>
          if existingTab \<noteq> - 1 then
            Inr (Some (state\<lparr>active_index := existingTab,
                   tabs := map_idx (\<lambda>tab idx. if idx = existingTab then Entry newTab else tab)
                             (tabs state)\<rparr>))
          else
            (let newTabs = spread (tabs state) @ [Entry newTab]
             in Inr (Some \<lparr>tabs = newTabs, active_index = int (length newTabs) - 1\<rparr>)))"
| "transition state (REPLACE_TAB newTab) =
     (case findIndex (\<lambda>tab. path tab = path newTab) (tabs state) of
        Inl e \<Rightarrow> Inl e
      | Inr existingTab \<Rightarrow>
          if existingTab \<noteq> - 1 then
            Inr (Some (state\<lparr>active_index := existingTab\<rparr>))
          else
            (let newTabs = array_set (spread (tabs state)) (active_index state) (Entry newTab)
             in Inr (Some (state\<lparr>tabs := newTabs\<rparr>))))"
| "transition state (CLOSE_TAB closingPath) =
     (case findIndex (\<lambda>tab. path tab = closingPath) (tabs state) of
        Inl e \<Rightarrow> Inl e
      | Inr closingIndex \<Rightarrow>
          if closingIndex = - 1 \<or> int (length (tabs state)) < 2 then Inr None
          else
            (let newTabs = filter_idx (\<lambda>_ idx. idx \<noteq> closingIndex) (tabs state);
                 newActiveIndex =
                   (if active_index state = closingIndex then
                      (if length newTabs = 0 then 0
                       else min closingIndex (int (length newTabs) - 1))
                    else if active_index state > closingIndex then
                      max 0 (active_index state - 1)
                    else active_index state)
             in Inr (Some \<lparr>tabs = newTabs, active_index = newActiveIndex\<rparr>)))"
| "transition state (CLOSE_OTHER_TABS p) =
     (case find_tab (\<lambda>tab. path tab = p) (tabs state) of
        Inl e \<Rightarrow> Inl e
      | Inr None \<Rightarrow> Inr None
      | Inr (Some keepTab) \<Rightarrow> Inr (Some \<lparr>tabs = [Entry keepTab], active_index = 0\<rparr>))"
| "transition state (SET_ACTIVE_TAB p) =
     (case findIndex (\<lambda>tab. path tab = p) (tabs state) of
        Inl e \<Rightarrow> Inl e
      | Inr tabIndex \<Rightarrow>
          if tabIndex = - 1 then Inr None
          else Inr (Some (state\<lparr>active_index := tabIndex\<rparr>)))"
| "transition state (REORDER_TABS fromIndex toIndex) =
     (let newTabs = spread (tabs state);
          (removed, newTabs1) = splice newTabs fromIndex 1 [];
          movedTab = first_of removed;
          (_, newTabs2) = splice newTabs1 toIndex 0 [movedTab]
      in Inr (Some \<lparr>tabs = newTabs2, active_index = toIndex\<rparr>))"
| "transition state (UPDATE_TAB_PARAMS p ps) =
     (case findIndex (\<lambda>tab. path tab = p) (tabs state) of
        Inl e \<Rightarrow> Inl e
      | Inr tabIndex \<Rightarrow>
          if tabIndex = - 1 then Inr None
          else
            Inr (Some (state\<lparr>
              tabs := map_idx
                (\<lambda>tab idx.
                   if idx = tabIndex then
                     (case tab of
                        Entry t \<Rightarrow> Entry (t\<lparr>params := (case ps of None \<Rightarrow> Some [] | Some q \<Rightarrow> Some q)\<rparr>)
                      | other \<Rightarrow> other)
                   else tab)
                (tabs state),
              active_index := tabIndex\<rparr>)))"

text \<open>
  In \<open>UPDATE_TAB_PARAMS\<close> the position \<open>tabIndex\<close> always holds a tab (\<open>findIndex\<close> has just
  read its path), so the \<open>other\<close> case of the function given to \<open>map\<close> is never taken.
\<close>

text \<open>The block after the \<open>switch\<close>: both keys are written when \<open>window\<close> is defined.\<close>

definition persist :: "config \<Rightarrow> bool \<Rightarrow> TabsState \<Rightarrow> effect list" where
  "persist cfg window_defined newState =
     (if window_defined then
        [SetItem (storageKey cfg) (JSON_stringify (tabs newState)),
         SetItem (activeTabStorageKey cfg) (String_of (active_index newState))]
      else [])"

text \<open>The reducer: the state it returns and the storage writes it made on the way.\<close>

definition createTabsReducer ::
  "config \<Rightarrow> bool \<Rightarrow> TabsState \<Rightarrow> TabsAction \<Rightarrow> error + (TabsState \<times> effect list)" where
  "createTabsReducer cfg window_defined state action =
     (case transition state action of
        Inl e \<Rightarrow> Inl e
      | Inr None \<Rightarrow> Inr (state, [])
      | Inr (Some newState) \<Rightarrow> Inr (newState, persist cfg window_defined newState))"

section \<open>Invariants\<close>

fun entries :: "slot list \<Rightarrow> Tab list" where
  "entries [] = []"
| "entries (Entry t # xs) = t # entries xs"
| "entries (x # xs) = entries xs"

definition index_in_range :: "TabsState \<Rightarrow> bool" where
  "index_in_range s =
     (tabs s \<noteq> [] \<longrightarrow> 0 \<le> active_index s \<and> active_index s < int (length (tabs s)))"

definition unique_paths :: "TabsState \<Rightarrow> bool" where
  "unique_paths s = distinct (map path (entries (tabs s)))"

definition invariants :: "TabsState \<Rightarrow> bool" where
  "invariants s = (index_in_range s \<and> unique_paths s)"

text \<open>The state is what its type says: every position of \<open>tabs\<close> holds a tab.\<close>

definition well_typed :: "TabsState \<Rightarrow> bool" where
  "well_typed s = list_all is_Entry (tabs s)"

text \<open>
  The branches that the reducer leaves early with the state it was given: \<open>CLOSE_TAB\<close> of
  an absent path or of the only tab, and \<open>CLOSE_OTHER_TABS\<close>, \<open>SET_ACTIVE_TAB\<close>,
  \<open>UPDATE_TAB_PARAMS\<close> of an absent path. Written from the specification's list of
  no-op transitions, to be compared with the early returns of \<open>transition\<close>.
\<close>

fun noop_branch :: "TabsState \<Rightarrow> TabsAction \<Rightarrow> bool" where
  "noop_branch s (CLOSE_TAB p) =
     (p \<notin> set (map path (entries (tabs s))) \<or> length (tabs s) = 1)"
| "noop_branch s (CLOSE_OTHER_TABS p) = (p \<notin> set (map path (entries (tabs s))))"
| "noop_branch s (SET_ACTIVE_TAB p) = (p \<notin> set (map path (entries (tabs s))))"
| "noop_branch s (UPDATE_TAB_PARAMS p ps) = (p \<notin> set (map path (entries (tabs s))))"
| "noop_branch s _ = False"

text \<open>The precondition the specification gives \<open>REORDER\<close>: both indices inside the list.\<close>

fun indices_in_range :: "TabsState \<Rightarrow> TabsAction \<Rightarrow> bool" where
  "indices_in_range s (REORDER_TABS fromIndex toIndex) =
     (0 \<le> fromIndex \<and> fromIndex < int (length (tabs s))
      \<and> 0 \<le> toIndex \<and> toIndex < int (length (tabs s)))"
| "indices_in_range s _ = True"

section \<open>Initial state (TabRouterProvider: getInitialState)\<close>

text \<open>
  What \<open>JSON.parse\<close> can return. \<open>getInitialState\<close> hands the parsed value on without
  looking at its shape, so the state it returns holds a value of this type and a number,
  whatever the type \<open>TabsState\<close> says.
\<close>

datatype jsvalue =
    JNull
  | JBool bool
  | JNum number
  | JStr string
  | JArr "jsvalue list"
  | JObj "(string \<times> jsvalue) list"

record InitialState =
  init_tabs :: jsvalue
  init_active_index :: number

text \<open>
  The environment of the call: whether \<open>window\<close> is defined, \<open>sessionStorage.getItem\<close>
  (\<open>None\<close> is \<open>null\<close>), and the two built-ins the function calls, \<open>JSON.parse\<close> (which
  throws a SyntaxError on a string that is not JSON) and \<open>Number\<close>.
\<close>

record env =
  has_window :: bool
  getItem :: "string \<Rightarrow> string option"
  JSON_parse :: "string \<Rightarrow> error + jsvalue"
  Number_of :: "string \<Rightarrow> number"

text \<open>JavaScript truthiness, as \<open>||\<close> and \<open>?:\<close> test it.\<close>

fun truthy_number :: "number \<Rightarrow> bool" where
  "truthy_number NaN = False"
| "truthy_number (Fin q) = (q \<noteq> 0)"
| "truthy_number _ = True"

fun truthy :: "jsvalue \<Rightarrow> bool" where
  "truthy JNull = False"
| "truthy (JBool b) = b"
| "truthy (JNum n) = truthy_number n"
| "truthy (JStr str) = (str \<noteq> [])"
| "truthy (JArr _) = True"
| "truthy (JObj _) = True"

definition initialTab :: "config \<Rightarrow> jsvalue" where
  "initialTab cfg = JObj [(''path'', JStr (initialPath cfg)), (''params'', JObj [])]"

definition default_state :: "config \<Rightarrow> InitialState" where
  "default_state cfg = \<lparr>init_tabs = JArr [initialTab cfg], init_active_index = Fin 0\<rparr>"

definition getInitialState :: "env \<Rightarrow> config \<Rightarrow> error + InitialState" where
  "getInitialState e cfg =
     (if \<not> has_window e then
        Inr \<lparr>init_tabs = JArr [initialTab cfg], init_active_index = Fin 0\<rparr>
      else
        (let storedTabs = getItem e (storageKey cfg);
             storedActiveIndex = getItem e (activeTabStorageKey cfg);
             tabs_field =
               (case storedTabs of
                  None \<Rightarrow> Inr (JArr [initialTab cfg])
                | Some str \<Rightarrow>
                    if str = [] then Inr (JArr [initialTab cfg])
                    else (case JSON_parse e str of
                            Inl err \<Rightarrow> Inl err
                          | Inr v \<Rightarrow> Inr (if truthy v then v else JArr [initialTab cfg])));
             index_field =
               (case storedActiveIndex of
                  None \<Rightarrow> Fin 0
                | Some str \<Rightarrow>
                    if str = [] then Fin 0
                    else (let n = Number_of e str in if truthy_number n then n else Fin 0))
         in case tabs_field of
              Inl err \<Rightarrow> Inl err
            | Inr v \<Rightarrow> Inr \<lparr>init_tabs = v, init_active_index = index_field\<rparr>))"

text \<open>
  A sample of the two built-ins, right on the strings listed and used only there:
  \<open>JSON.parse\<close> of \<open>null\<close>, \<open>[]\<close>, \<open>{}\<close> and \<open>5\<close>, which throws on \<open>{not json\<close>, and \<open>Number\<close>
  of \<open>7\<close>, \<open>0\<close> and \<open>abc\<close>.
\<close>

definition sample_parse :: "string \<Rightarrow> error + jsvalue" where
  "sample_parse str =
     (if str = ''null'' then Inr JNull
      else if str = ''[]'' then Inr (JArr [])
      else if str = ''{}'' then Inr (JObj [])
      else if str = ''5'' then Inr (JNum (Fin 5))
      else Inl SyntaxError)"

definition sample_number :: "string \<Rightarrow> number" where
  "sample_number str =
     (if str = ''7'' then Fin 7 else if str = ''0'' then Fin 0 else NaN)"

definition sample_env :: "string option \<Rightarrow> string option \<Rightarrow> env" where
  "sample_env storedTabs storedActiveIndex =
     \<lparr>has_window = True,
      getItem = (\<lambda>key. if key = ''tabrouter-tabs'' then storedTabs
                       else if key = ''tabrouter-active-tab'' then storedActiveIndex
                       else None),
      JSON_parse = sample_parse,
      Number_of = sample_number\<rparr>"

section \<open>The Link component (handleClick)\<close>

record parsedHref =
  href_path :: string
  href_params :: params
  href_hash :: string

record MouseEvent =
  defaultPrevented :: bool
  metaKey :: bool
  ctrlKey :: bool
  shiftKey :: bool
  altKey :: bool

text \<open>The router operations a click can call, and everything else a click does.\<close>

datatype facade_call = Push Tab | Replace Tab | SwitchToPath string

datatype click_effect = PreventDefault | Facade facade_call | ScrollTimer string

text \<open>\<open>tabs.some((tab) => tab.path === p)\<close>; \<open>some\<close> does not visit holes.\<close>

fun some_tab :: "(Tab \<Rightarrow> bool) \<Rightarrow> slot list \<Rightarrow> error + bool" where
  "some_tab p [] = Inr False"
| "some_tab p (Entry t # xs) = (if p t then Inr True else some_tab p xs)"
| "some_tab p (Undefined # xs) = Inl TypeError"
| "some_tab p (Hole # xs) = some_tab p xs"

definition shouldSwitchToExisting :: "bool \<Rightarrow> bool \<Rightarrow> string option \<Rightarrow> bool" where
  "shouldSwitchToExisting tabExists replace target =
     (tabExists \<and> \<not> replace \<and> target \<noteq> Some ''_blank'')"

text \<open>
  \<open>handleClick\<close>. The caller's own \<open>onClick\<close> runs first and may change the event (it can
  call \<open>preventDefault\<close>); the result lists what the handler itself then does, in order.
\<close>

definition handleClick ::
  "(MouseEvent \<Rightarrow> MouseEvent) option \<Rightarrow> string option \<Rightarrow> bool \<Rightarrow> bool \<Rightarrow> parsedHref \<Rightarrow> bool
     \<Rightarrow> MouseEvent \<Rightarrow> click_effect list" where
  "handleClick onClick target replace shouldSwitch href window_defined e =
     (let e1 = (case onClick of None \<Rightarrow> e | Some handler \<Rightarrow> handler e);
          dest = \<lparr>path = href_path href, params = Some (href_params href)\<rparr>
      in if defaultPrevented e1 \<or> metaKey e1 \<or> ctrlKey e1 \<or> shiftKey e1 \<or> altKey e1 then []
         else if target = Some ''_blank'' then [PreventDefault, Facade (Push dest)]
         else if shouldSwitch then [PreventDefault, Facade (SwitchToPath (href_path href))]
         else
           [PreventDefault, (if replace then Facade (Replace dest) else Facade (Push dest))]
           @ (if href_hash href \<noteq> [] \<and> window_defined then [ScrollTimer (href_hash href)]
              else []))"

text \<open>A click on a rendered Link: \<open>tabExists\<close> and \<open>shouldSwitchToExisting\<close> come from the
  render, the handler from the click.\<close>

definition Link_click ::
  "slot list \<Rightarrow> (MouseEvent \<Rightarrow> MouseEvent) option \<Rightarrow> string option \<Rightarrow> bool \<Rightarrow> parsedHref \<Rightarrow> bool
     \<Rightarrow> MouseEvent \<Rightarrow> error + click_effect list" where
  "Link_click tabs_now onClick target replace href window_defined e =
     (case some_tab (\<lambda>tab. path tab = href_path href) tabs_now of
        Inl err \<Rightarrow> Inl err
      | Inr tabExists \<Rightarrow>
          Inr (handleClick onClick target replace
                 (shouldSwitchToExisting tabExists replace target) href window_defined e))"

fun facade_calls :: "click_effect list \<Rightarrow> facade_call list" where
  "facade_calls [] = []"
| "facade_calls (Facade c # xs) = c # facade_calls xs"
| "facade_calls (x # xs) = facade_calls xs"

text \<open>The precedence as the specification words it.\<close>

definition expected_call :: "slot list \<Rightarrow> string option \<Rightarrow> bool \<Rightarrow> parsedHref \<Rightarrow> facade_call" where
  "expected_call tabs_now target replace href =
     (let dest = \<lparr>path = href_path href, params = Some (href_params href)\<rparr>
      in if target = Some ''_blank'' then Push dest
         else if replace then Replace dest
         else if href_path href \<in> set (map path (entries tabs_now)) then SwitchToPath (href_path href)
         else Push dest)"

section \<open>Sample values\<close>

definition tab_a :: Tab where "tab_a = \<lparr>path = ''/a'', params = None\<rparr>"
definition tab_b :: Tab where "tab_b = \<lparr>path = ''/b'', params = None\<rparr>"
definition tab_c :: Tab where "tab_c = \<lparr>path = ''/c'', params = None\<rparr>"

definition plain_click :: MouseEvent where
  "plain_click = \<lparr>defaultPrevented = False, metaKey = False, ctrlKey = False,
                  shiftKey = False, altKey = False\<rparr>"

section \<open>Facts about the array operations on well-typed arrays\<close>

lemma wt_map_Entry: "list_all is_Entry xs \<Longrightarrow> xs = map Entry (entries xs)"
  by (induction xs rule: entries.induct) auto

lemma entries_map_Entry [simp]: "entries (map Entry ts) = ts"
  by (induction ts) auto

lemma spread_map_Entry [simp]: "spread (map Entry ts) = map Entry ts"
  by (simp add: spread_def)

lemma well_typed_obtain:
  assumes "well_typed s"
  obtains ts where "tabs s = map Entry ts"
  using assms wt_map_Entry unfolding well_typed_def by blast

lemma findIndex_from_absent:
  "\<forall>t \<in> set ts. \<not> p t \<Longrightarrow> findIndex_from p (map Entry ts) i = Inr (- 1)"
  by (induction ts arbitrary: i) auto

lemma findIndex_from_at:
  "c < length ts \<Longrightarrow> p (ts ! c) \<Longrightarrow> \<forall>j < c. \<not> p (ts ! j) \<Longrightarrow>
   findIndex_from p (map Entry ts) i = Inr (i + int c)"
proof (induction ts arbitrary: c i)
  case Nil
  then show ?case by simp
next
  case (Cons t ts)
  show ?case
  proof (cases c)
    case 0
    with Cons.prems show ?thesis by simp
  next
    case (Suc c')
    from Cons.prems Suc have "\<not> p t" by auto
    moreover have "findIndex_from p (map Entry ts) (i + 1) = Inr (i + 1 + int c')"
      using Cons.prems Suc by (intro Cons.IH) auto
    ultimately show ?thesis using Suc by simp
  qed
qed

lemma findIndex_absent:
  "P \<notin> set (map path ts) \<Longrightarrow> findIndex (\<lambda>u. path u = P) (map Entry ts) = Inr (- 1)"
  unfolding findIndex_def by (rule findIndex_from_absent) auto

lemma findIndex_present:
  assumes "distinct (map path ts)" "c < length ts" "path (ts ! c) = P"
  shows "findIndex (\<lambda>u. path u = P) (map Entry ts) = Inr (int c)"
proof -
  have "\<forall>j < c. path (ts ! j) \<noteq> P"
  proof (intro allI impI)
    fix j assume "j < c"
    with assms have "j < length (map path ts)" "c < length (map path ts)" "j \<noteq> c" by auto
    with assms(1) have "map path ts ! j \<noteq> map path ts ! c"
      unfolding distinct_conv_nth by blast
    with assms \<open>j < c\<close> show "path (ts ! j) \<noteq> P" by simp
  qed
  with assms show ?thesis
    unfolding findIndex_def using findIndex_from_at [of c ts "\<lambda>u. path u = P" 0] by simp
qed

lemma find_tab_map_Entry: "find_tab p (map Entry ts) = Inr (List.find p ts)"
  by (induction ts) auto

lemma map_idx_from_past:
  "k < i \<Longrightarrow>
   map_idx_from (\<lambda>tab idx. if idx = k then f tab else tab) (map Entry ts) i = map Entry ts"
  by (induction ts arbitrary: i) auto

lemma map_idx_from_update:
  "i \<le> k \<Longrightarrow>
   map_idx_from (\<lambda>tab idx. if idx = k then f tab else tab) (map Entry ts) i
     = (if nat (k - i) < length ts
        then (map Entry ts)[nat (k - i) := f (Entry (ts ! nat (k - i)))]
        else map Entry ts)"
proof (induction ts arbitrary: i)
  case Nil
  then show ?case by simp
next
  case (Cons t ts)
  show ?case
  proof (cases "i = k")
    case True
    then show ?thesis by (simp add: map_idx_from_past)
  next
    case False
    with Cons.prems have lt: "i + 1 \<le> k" by simp
    have n: "nat (k - i) = Suc (nat (k - (i + 1)))" using lt by simp
    show ?thesis using False Cons.IH [OF lt] by (simp add: n)
  qed
qed

lemma filter_idx_from_past:
  "k < i \<Longrightarrow> filter_idx_from (\<lambda>_ idx. idx \<noteq> k) (map Entry ts) i = map Entry ts"
  by (induction ts arbitrary: i) auto

lemma filter_idx_from_remove:
  "i \<le> k \<Longrightarrow>
   filter_idx_from (\<lambda>_ idx. idx \<noteq> k) (map Entry ts) i
     = take (nat (k - i)) (map Entry ts) @ drop (Suc (nat (k - i))) (map Entry ts)"
proof (induction ts arbitrary: i)
  case Nil
  then show ?case by simp
next
  case (Cons t ts)
  show ?case
  proof (cases "i = k")
    case True
    then show ?thesis by (simp add: filter_idx_from_past)
  next
    case False
    with Cons.prems have lt: "i + 1 \<le> k" by simp
    have n: "nat (k - i) = Suc (nat (k - (i + 1)))" using lt by simp
    show ?thesis using False Cons.IH [OF lt] by (simp add: n)
  qed
qed

section \<open>The transitions on well-typed states\<close>

lemma map_idx_const:
  "i < length ts \<Longrightarrow>
   map_idx (\<lambda>tab idx. if idx = int i then Entry t else tab) (map Entry ts) = map Entry (ts[i := t])"
  unfolding map_idx_def
  using map_idx_from_update [of 0 "int i" "\<lambda>_. Entry t" ts] by (simp add: map_update)

lemma map_idx_params:
  "i < length ts \<Longrightarrow>
   map_idx (\<lambda>tab idx. if idx = int i then
              (case tab of Entry t \<Rightarrow> Entry (t\<lparr>params := q\<rparr>) | other \<Rightarrow> other) else tab)
     (map Entry ts) = map Entry (ts[i := (ts ! i)\<lparr>params := q\<rparr>])"
  unfolding map_idx_def
  using map_idx_from_update [of 0 "int i"
      "\<lambda>tab. case tab of Entry t \<Rightarrow> Entry (t\<lparr>params := q\<rparr>) | other \<Rightarrow> other" ts]
  by (simp add: map_update)

lemma path_present:
  "P \<in> set (map path ts) \<Longrightarrow> \<exists>i < length ts. path (ts ! i) = P"
  by (auto simp: in_set_conv_nth)

lemma add_tab_existing:
  assumes "tabs s = map Entry ts" "distinct (map path ts)" "i < length ts" "path (ts ! i) = path t"
  shows "transition s (ADD_TAB t)
         = Inr (Some (s\<lparr>active_index := int i, tabs := map Entry (ts[i := t])\<rparr>))"
  using assms by (simp add: findIndex_present map_idx_const)

lemma add_tab_absent:
  assumes "tabs s = map Entry ts" "path t \<notin> set (map path ts)"
  shows "transition s (ADD_TAB t)
         = Inr (Some \<lparr>tabs = map Entry (ts @ [t]), active_index = int (length ts)\<rparr>)"
  using assms by (simp add: findIndex_absent)

lemma replace_tab_existing:
  assumes "tabs s = map Entry ts" "distinct (map path ts)" "i < length ts" "path (ts ! i) = path t"
  shows "transition s (REPLACE_TAB t) = Inr (Some (s\<lparr>active_index := int i\<rparr>))"
  using assms by (simp add: findIndex_present)

lemma replace_tab_absent:
  assumes "tabs s = map Entry ts" "path t \<notin> set (map path ts)"
  shows "transition s (REPLACE_TAB t)
         = Inr (Some (s\<lparr>tabs := array_set (map Entry ts) (active_index s) (Entry t)\<rparr>))"
  using assms by (simp add: findIndex_absent)

lemma close_tab_present:
  assumes "tabs s = map Entry ts" "distinct (map path ts)" "c < length ts" "path (ts ! c) = P"
    "2 \<le> length ts"
  shows "transition s (CLOSE_TAB P)
         = Inr (Some \<lparr>tabs = map Entry (take c ts @ drop (Suc c) ts),
                      active_index =
                        (if active_index s = int c then min (int c) (int (length ts) - 2)
                         else if int c < active_index s then active_index s - 1
                         else active_index s)\<rparr>)"
proof -
  define nt where "nt = take c ts @ drop (Suc c) ts"
  have fl: "filter_idx (\<lambda>_ idx. idx \<noteq> int c) (map Entry ts) = map Entry nt"
    unfolding filter_idx_def nt_def using filter_idx_from_remove [of 0 "int c" ts]
    by (simp add: take_map drop_map)
  have l: "int (length nt) = int (length ts) - 1" "nt \<noteq> []"
    using assms by (auto simp: nt_def)
  have fi: "findIndex (\<lambda>u. path u = P) (map Entry ts) = Inr (int c)"
    using assms by (simp add: findIndex_present)
  have "transition s (CLOSE_TAB P)
         = Inr (Some \<lparr>tabs = map Entry nt,
                      active_index =
                        (if active_index s = int c then min (int c) (int (length ts) - 2)
                         else if int c < active_index s then active_index s - 1
                         else active_index s)\<rparr>)"
    using assms(5) l by (simp add: assms(1) fi fl Let_def)
  then show ?thesis by (simp only: nt_def)
qed

lemma close_tab_noop:
  assumes "tabs s = map Entry ts" "P \<notin> set (map path ts) \<or> length ts < 2"
  shows "transition s (CLOSE_TAB P) = Inr None"
proof (cases "P \<in> set (map path ts)")
  case False
  with assms show ?thesis by (simp add: findIndex_absent)
next
  case True
  with assms obtain t where "ts = [t]" by (cases ts) auto
  with True assms show ?thesis by (simp add: findIndex_def)
qed

lemma find_first:
  assumes "distinct (map path ts)" "i < length ts" "path (ts ! i) = P"
  shows "List.find (\<lambda>u. path u = P) ts = Some (ts ! i)"
proof -
  have "\<forall>j < i. path (ts ! j) \<noteq> P"
  proof (intro allI impI)
    fix j assume "j < i"
    with assms have "j < length (map path ts)" "i < length (map path ts)" "j \<noteq> i" by auto
    with assms(1) have "map path ts ! j \<noteq> map path ts ! i"
      unfolding distinct_conv_nth by blast
    with assms \<open>j < i\<close> show "path (ts ! j) \<noteq> P" by simp
  qed
  with assms show ?thesis by (auto simp: find_Some_iff)
qed

lemma close_others_present:
  assumes "tabs s = map Entry ts" "distinct (map path ts)" "i < length ts" "path (ts ! i) = P"
  shows "transition s (CLOSE_OTHER_TABS P)
         = Inr (Some \<lparr>tabs = [Entry (ts ! i)], active_index = 0\<rparr>)"
  using assms by (simp add: find_tab_map_Entry find_first)

lemma close_others_absent:
  assumes "tabs s = map Entry ts" "P \<notin> set (map path ts)"
  shows "transition s (CLOSE_OTHER_TABS P) = Inr None"
proof -
  from assms have "List.find (\<lambda>u. path u = P) ts = None" by (auto simp: find_None_iff)
  with assms show ?thesis by (simp add: find_tab_map_Entry)
qed

lemma set_active_present:
  assumes "tabs s = map Entry ts" "distinct (map path ts)" "i < length ts" "path (ts ! i) = P"
  shows "transition s (SET_ACTIVE_TAB P) = Inr (Some (s\<lparr>active_index := int i\<rparr>))"
  using assms by (simp add: findIndex_present)

lemma set_active_absent:
  assumes "tabs s = map Entry ts" "P \<notin> set (map path ts)"
  shows "transition s (SET_ACTIVE_TAB P) = Inr None"
  using assms by (simp add: findIndex_absent)

lemma update_params_present:
  assumes "tabs s = map Entry ts" "distinct (map path ts)" "i < length ts" "path (ts ! i) = P"
  shows "transition s (UPDATE_TAB_PARAMS P ps)
         = Inr (Some (s\<lparr>tabs := map Entry
                  (ts[i := (ts ! i)\<lparr>params := (case ps of None \<Rightarrow> Some [] | Some q \<Rightarrow> Some q)\<rparr>]),
                active_index := int i\<rparr>))"
  using assms by (simp add: findIndex_present map_idx_params)

lemma update_params_absent:
  assumes "tabs s = map Entry ts" "P \<notin> set (map path ts)"
  shows "transition s (UPDATE_TAB_PARAMS P ps) = Inr None"
  using assms by (simp add: findIndex_absent)


lemma splice_start_le: "splice_start n start \<le> n"
  by (auto simp: splice_start_def max_def min_def)

lemma splice_start_lt: "0 < n \<Longrightarrow> start < int n \<Longrightarrow> splice_start n start < n"
  by (auto simp: splice_start_def max_def min_def)

lemma splice_start_in_range: "0 \<le> start \<Longrightarrow> start \<le> int n \<Longrightarrow> splice_start n start = nat start"
  by (simp add: splice_start_def)

lemma splice_start_past: "int n \<le> start \<Longrightarrow> splice_start n start = n"
  by (auto simp: splice_start_def max_def min_def)

lemma splice_alt:
  "splice xs start dc items =
     (let a = splice_start (length xs) start;
          d = nat (min (max dc 0) (int (length xs) - int a))
      in (take d (drop a xs), take a xs @ items @ drop (a + d) xs))"
proof -
  have "int (splice_start (length xs) start)
        = (if start < 0 then max (int (length xs) + start) 0 else min start (int (length xs)))"
    by (auto simp: splice_start_def max_def min_def)
  then show ?thesis unfolding splice_def Let_def splice_start_def by simp
qed

lemma splice_remove_one:
  assumes "xs \<noteq> []" "f < int (length xs)"
  shows "splice xs f 1 [] =
         ([xs ! splice_start (length xs) f],
          take (splice_start (length xs) f) xs @ drop (Suc (splice_start (length xs) f)) xs)"
proof -
  define a where "a = splice_start (length xs) f"
  have a: "a < length xs" unfolding a_def using assms by (intro splice_start_lt) auto
  have d: "nat (min (max 1 0) (int (length xs) - int a)) = 1" using a by simp
  have "take 1 (drop a xs) = [xs ! a]" using a
    by (metis Cons_nth_drop_Suc One_nat_def take0 take_Suc_Cons)
  then show ?thesis
    unfolding splice_alt Let_def a_def [symmetric] d by simp
qed

lemma splice_remove_none:
  assumes "xs = [] \<or> int (length xs) \<le> f"
  shows "splice xs f 1 [] = ([], xs)"
proof -
  from assms have "splice_start (length xs) f = length xs"
    by (auto simp: splice_start_past splice_start_def)
  then show ?thesis unfolding splice_alt Let_def by simp
qed

lemma splice_insert:
  "splice xs t 0 [m] =
     ([], take (splice_start (length xs) t) xs @ [m] @ drop (splice_start (length xs) t) xs)"
  unfolding splice_alt Let_def by simp

lemma spread_no_hole: "Hole \<notin> set (spread xs)"
  by (auto simp: spread_def split: slot.splits)

lemma first_of_single: "x \<noteq> Hole \<Longrightarrow> first_of [x] = x"
  by (cases x) auto

lemma length_spread [simp]: "length (spread xs) = length xs"
  by (simp add: spread_def)

lemma reorder_moves:
  assumes "tabs s \<noteq> []" "f < int (length (tabs s))"
  shows "transition s (REORDER_TABS f t) =
         (let xs = spread (tabs s);
              a = splice_start (length xs) f;
              rest = take a xs @ drop (Suc a) xs;
              b = splice_start (length rest) t
          in Inr (Some \<lparr>tabs = take b rest @ [xs ! a] @ drop b rest, active_index = t\<rparr>))"
proof -
  define xs where "xs = spread (tabs s)"
  have xs: "xs \<noteq> []" "f < int (length xs)" using assms by (auto simp: xs_def spread_def)
  define a where "a = splice_start (length xs) f"
  have a: "a < length xs" unfolding a_def using xs by (intro splice_start_lt) auto
  have "xs ! a \<in> set xs" using a by simp
  then have nh: "xs ! a \<noteq> Hole" using spread_no_hole [of "tabs s"] by (auto simp: xs_def)
  have s1: "splice xs f 1 [] = ([xs ! a], take a xs @ drop (Suc a) xs)"
    unfolding a_def using xs by (rule splice_remove_one)
  show ?thesis
    unfolding transition.simps xs_def [symmetric] Let_def s1 a_def [symmetric]
    by (simp add: first_of_single [OF nh] splice_insert)
qed

lemma reorder_inserts_undefined:
  assumes "tabs s = [] \<or> int (length (tabs s)) \<le> f"
  shows "transition s (REORDER_TABS f t) =
         (let xs = spread (tabs s); b = splice_start (length xs) t
          in Inr (Some \<lparr>tabs = take b xs @ [Undefined] @ drop b xs, active_index = t\<rparr>))"
proof -
  define xs where "xs = spread (tabs s)"
  have "xs = [] \<or> int (length xs) \<le> f" using assms by (auto simp: xs_def spread_def)
  then have s1: "splice xs f 1 [] = ([], xs)" by (rule splice_remove_none)
  show ?thesis
    unfolding transition.simps xs_def [symmetric] Let_def s1
    by (simp add: splice_insert)
qed

section \<open>CLOSE\_TAB\<close>

text \<open>
  C4. In a well-typed state that satisfies the invariants and has at least two tabs,
  \<open>CLOSE_TAB P\<close> removes exactly the tab with path \<open>P\<close>, found at index \<open>c\<close>; the new active
  index is \<open>min c (newLength - 1)\<close> if \<open>c\<close> was active, one less if \<open>c\<close> was below the
  active index, and unchanged otherwise. If no tab has path \<open>P\<close>, or there is exactly one
  tab, the state is returned as it was and nothing is written.
\<close>

theorem close_tab_removes:
  assumes wt: "well_typed s" and inv: "invariants s"
  shows "(\<forall>c t. 2 \<le> length (tabs s) \<and> c < length (tabs s) \<and> tabs s ! c = Entry t \<and> path t = P \<longrightarrow>
            (let s' = \<lparr>tabs = take c (tabs s) @ drop (Suc c) (tabs s),
                       active_index =
                         (if active_index s = int c then min (int c) (int (length (tabs s) - 1) - 1)
                          else if int c < active_index s then active_index s - 1
                          else active_index s)\<rparr>
             in createTabsReducer cfg w s (CLOSE_TAB P) = Inr (s', persist cfg w s')))
       \<and> (P \<notin> set (map path (entries (tabs s))) \<or> length (tabs s) = 1 \<longrightarrow>
            createTabsReducer cfg w s (CLOSE_TAB P) = Inr (s, []))"
proof -
  from wt obtain ts where ts: "tabs s = map Entry ts" by (rule well_typed_obtain)
  from inv ts have d: "distinct (map path ts)" by (simp add: invariants_def unique_paths_def)
  have removal: "createTabsReducer cfg w s (CLOSE_TAB P) =
      Inr (\<lparr>tabs = take c (tabs s) @ drop (Suc c) (tabs s),
            active_index =
              (if active_index s = int c then min (int c) (int (length (tabs s) - 1) - 1)
               else if int c < active_index s then active_index s - 1
               else active_index s)\<rparr>,
           persist cfg w \<lparr>tabs = take c (tabs s) @ drop (Suc c) (tabs s),
            active_index =
              (if active_index s = int c then min (int c) (int (length (tabs s) - 1) - 1)
               else if int c < active_index s then active_index s - 1
               else active_index s)\<rparr>)"
    if len: "2 \<le> length (tabs s)" and c: "c < length (tabs s)"
      and at: "tabs s ! c = Entry t" and p: "path t = P" for c t
  proof -
    from at c ts have "ts ! c = t" by simp
    with d c ts p have fi: "findIndex (\<lambda>u. path u = P) (tabs s) = Inr (int c)"
      by (simp add: findIndex_present)
    have fl: "filter_idx (\<lambda>_ idx. idx \<noteq> int c) (tabs s) = take c (tabs s) @ drop (Suc c) (tabs s)"
      unfolding filter_idx_def ts using filter_idx_from_remove [of 0 "int c" ts] by simp
    have l: "length (take c (tabs s) @ drop (Suc c) (tabs s)) = length (tabs s) - 1"
      using c by simp
    show ?thesis
      using len c by (simp add: createTabsReducer_def fi fl l Let_def min_def)
  qed
  have noop: "createTabsReducer cfg w s (CLOSE_TAB P) = Inr (s, [])"
    if "P \<notin> set (map path (entries (tabs s))) \<or> length (tabs s) = 1"
  proof (cases "P \<in> set (map path ts)")
    case False
    then show ?thesis by (simp add: createTabsReducer_def ts findIndex_absent)
  next
    case True
    with that ts have one: "length ts = 1" by simp
    then obtain t where t: "ts = [t]" by (cases ts) auto
    with True show ?thesis by (simp add: createTabsReducer_def ts findIndex_def)
  qed
  from removal noop show ?thesis unfolding Let_def by blast
qed

theorem close_tab_removes_witness:
  "well_typed \<lparr>tabs = [Entry tab_a, Entry tab_b, Entry tab_c], active_index = 2\<rparr>
   \<and> invariants \<lparr>tabs = [Entry tab_a, Entry tab_b, Entry tab_c], active_index = 2\<rparr>
   \<and> createTabsReducer defaultConfig True
        \<lparr>tabs = [Entry tab_a, Entry tab_b, Entry tab_c], active_index = 2\<rparr> (CLOSE_TAB ''/b'')
      = Inr (\<lparr>tabs = [Entry tab_a, Entry tab_c], active_index = 1\<rparr>,
             [SetItem ''tabrouter-tabs'' (JSON_stringify [Entry tab_a, Entry tab_c]),
              SetItem ''tabrouter-active-tab'' (String_of 1)])
   \<and> createTabsReducer defaultConfig True
        \<lparr>tabs = [Entry tab_a, Entry tab_b, Entry tab_c], active_index = 2\<rparr> (CLOSE_TAB ''/x'')
      = Inr (\<lparr>tabs = [Entry tab_a, Entry tab_b, Entry tab_c], active_index = 2\<rparr>, [])"
proof -
  let ?s = "\<lparr>tabs = [Entry tab_a, Entry tab_b, Entry tab_c], active_index = 2\<rparr>"
  have wt: "well_typed ?s" by (simp add: well_typed_def)
  have inv: "invariants ?s"
    by (simp add: invariants_def index_in_range_def unique_paths_def tab_a_def tab_b_def tab_c_def)
  note th = close_tab_removes [OF wt inv, of _ defaultConfig True]
  have "createTabsReducer defaultConfig True ?s (CLOSE_TAB ''/b'')
      = Inr (\<lparr>tabs = [Entry tab_a, Entry tab_c], active_index = 1\<rparr>,
             [SetItem ''tabrouter-tabs'' (JSON_stringify [Entry tab_a, Entry tab_c]),
              SetItem ''tabrouter-active-tab'' (String_of 1)])"
    using th [of "''/b''", THEN conjunct1, rule_format, of 1 tab_b]
    by (simp add: tab_b_def persist_def defaultConfig_def)
  moreover have "createTabsReducer defaultConfig True ?s (CLOSE_TAB ''/x'') = Inr (?s, [])"
    using th [of "''/x''", THEN conjunct2]
    by (simp add: tab_a_def tab_b_def tab_c_def)
  ultimately show ?thesis using wt inv by simp
qed

section \<open>ADD\_TAB\<close>

lemma keeps_paths: "i < length ts \<Longrightarrow> path (ts ! i) = path t \<Longrightarrow> map path (ts[i := t]) = map path ts"
  by (simp add: map_update list_update_same_conv)

text \<open>
  C5. In a well-typed state that satisfies the invariants, \<open>ADD_TAB t\<close> replaces the tab
  that has \<open>t\<close>'s path, at its index \<open>i\<close>, by \<open>t\<close>, leaves every other position as it was and
  makes \<open>i\<close> active; when no tab has that path it appends \<open>t\<close> and makes the new last index
  active. Hence a second \<open>ADD_TAB t\<close> returns the state the first one returned, and the
  active tab of that state is \<open>t\<close> itself, with the parameters of the payload.
\<close>

theorem add_tab_replaces_or_appends:
  assumes wt: "well_typed s" and inv: "invariants s"
  shows "(\<forall>i u. i < length (tabs s) \<and> tabs s ! i = Entry u \<and> path u = path t \<longrightarrow>
            (let s' = s\<lparr>active_index := int i, tabs := (tabs s)[i := Entry t]\<rparr>
             in createTabsReducer cfg w s (ADD_TAB t) = Inr (s', persist cfg w s')))
       \<and> (path t \<notin> set (map path (entries (tabs s))) \<longrightarrow>
            (let s' = \<lparr>tabs = tabs s @ [Entry t], active_index = int (length (tabs s))\<rparr>
             in createTabsReducer cfg w s (ADD_TAB t) = Inr (s', persist cfg w s')))
       \<and> (\<exists>s1. createTabsReducer cfg w s (ADD_TAB t) = Inr (s1, persist cfg w s1)
              \<and> createTabsReducer cfg w s1 (ADD_TAB t) = Inr (s1, persist cfg w s1)
              \<and> 0 \<le> active_index s1 \<and> nat (active_index s1) < length (tabs s1)
              \<and> tabs s1 ! nat (active_index s1) = Entry t)"
proof -
  from wt obtain ts where ts: "tabs s = map Entry ts" by (rule well_typed_obtain)
  from inv ts have d: "distinct (map path ts)" by (simp add: invariants_def unique_paths_def)
  have existing: "createTabsReducer cfg w s (ADD_TAB t)
        = Inr (s\<lparr>active_index := int i, tabs := (tabs s)[i := Entry t]\<rparr>,
               persist cfg w (s\<lparr>active_index := int i, tabs := (tabs s)[i := Entry t]\<rparr>))"
    if "i < length (tabs s)" "tabs s ! i = Entry u" "path u = path t" for i u
  proof -
    from that ts have "i < length ts" "path (ts ! i) = path t" by auto
    from add_tab_existing [OF ts d this] show ?thesis
      by (simp add: createTabsReducer_def ts map_update)
  qed
  have absent: "createTabsReducer cfg w s (ADD_TAB t)
        = Inr (\<lparr>tabs = tabs s @ [Entry t], active_index = int (length (tabs s))\<rparr>,
               persist cfg w \<lparr>tabs = tabs s @ [Entry t], active_index = int (length (tabs s))\<rparr>)"
    if "path t \<notin> set (map path (entries (tabs s)))"
  proof -
    from that ts have "path t \<notin> set (map path ts)" by simp
    from add_tab_absent [OF ts this] show ?thesis
      by (simp add: createTabsReducer_def ts)
  qed
  have twice: "\<exists>s1. createTabsReducer cfg w s (ADD_TAB t) = Inr (s1, persist cfg w s1)
              \<and> createTabsReducer cfg w s1 (ADD_TAB t) = Inr (s1, persist cfg w s1)
              \<and> 0 \<le> active_index s1 \<and> nat (active_index s1) < length (tabs s1)
              \<and> tabs s1 ! nat (active_index s1) = Entry t"
  proof (cases "path t \<in> set (map path ts)")
    case True
    then obtain i where i: "i < length ts" "path (ts ! i) = path t" using path_present by blast
    define s1 where "s1 = s\<lparr>active_index := int i, tabs := map Entry (ts[i := t])\<rparr>"
    have first: "transition s (ADD_TAB t) = Inr (Some s1)"
      unfolding s1_def by (rule add_tab_existing [OF ts d i])
    have ts1: "tabs s1 = map Entry (ts[i := t])" by (simp add: s1_def)
    have d1: "distinct (map path (ts[i := t]))" using d i by (simp add: keeps_paths)
    have i1: "i < length (ts[i := t])" "path (ts[i := t] ! i) = path t" using i by auto
    have "transition s1 (ADD_TAB t) = Inr (Some (s1\<lparr>active_index := int i, tabs := map Entry (ts[i := t, i := t])\<rparr>))"
      by (rule add_tab_existing [OF ts1 d1 i1])
    also have "s1\<lparr>active_index := int i, tabs := map Entry (ts[i := t, i := t])\<rparr> = s1"
      by (simp add: s1_def)
    finally have second: "transition s1 (ADD_TAB t) = Inr (Some s1)" .
    have "0 \<le> active_index s1 \<and> nat (active_index s1) < length (tabs s1)
              \<and> tabs s1 ! nat (active_index s1) = Entry t"
      using i by (simp add: s1_def)
    with first second show ?thesis by (auto simp: createTabsReducer_def)
  next
    case False
    define s1 where "s1 = \<lparr>tabs = map Entry (ts @ [t]), active_index = int (length ts)\<rparr>"
    have first: "transition s (ADD_TAB t) = Inr (Some s1)"
      unfolding s1_def by (rule add_tab_absent [OF ts False])
    have ts1: "tabs s1 = map Entry (ts @ [t])" by (simp add: s1_def)
    have d1: "distinct (map path (ts @ [t]))" using d False by simp
    have i1: "length ts < length (ts @ [t])" "path ((ts @ [t]) ! length ts) = path t" by auto
    have "transition s1 (ADD_TAB t)
          = Inr (Some (s1\<lparr>active_index := int (length ts), tabs := map Entry ((ts @ [t])[length ts := t])\<rparr>))"
      by (rule add_tab_existing [OF ts1 d1 i1])
    also have "s1\<lparr>active_index := int (length ts), tabs := map Entry ((ts @ [t])[length ts := t])\<rparr> = s1"
      by (simp add: s1_def)
    finally have second: "transition s1 (ADD_TAB t) = Inr (Some s1)" .
    have "0 \<le> active_index s1 \<and> nat (active_index s1) < length (tabs s1)
              \<and> tabs s1 ! nat (active_index s1) = Entry t"
      by (simp add: s1_def nth_append)
    with first second show ?thesis by (auto simp: createTabsReducer_def)
  qed
  from existing absent twice show ?thesis unfolding Let_def by blast
qed

text \<open>The theorem at a two-tab state: an existing path is replaced in place, a new one appended.\<close>

theorem add_tab_replaces_or_appends_witness:
  "well_typed \<lparr>tabs = [Entry tab_a, Entry tab_b], active_index = 0\<rparr>
   \<and> invariants \<lparr>tabs = [Entry tab_a, Entry tab_b], active_index = 0\<rparr>
   \<and> createTabsReducer defaultConfig True \<lparr>tabs = [Entry tab_a, Entry tab_b], active_index = 0\<rparr>
        (ADD_TAB \<lparr>path = ''/b'', params = Some [(''id'', PNum (Fin 5))]\<rparr>)
      = Inr (\<lparr>tabs = [Entry tab_a, Entry \<lparr>path = ''/b'', params = Some [(''id'', PNum (Fin 5))]\<rparr>],
              active_index = 1\<rparr>,
             [SetItem ''tabrouter-tabs''
                (JSON_stringify
                   [Entry tab_a, Entry \<lparr>path = ''/b'', params = Some [(''id'', PNum (Fin 5))]\<rparr>]),
              SetItem ''tabrouter-active-tab'' (String_of 1)])
   \<and> createTabsReducer defaultConfig True \<lparr>tabs = [Entry tab_a, Entry tab_b], active_index = 0\<rparr>
        (ADD_TAB tab_c)
      = Inr (\<lparr>tabs = [Entry tab_a, Entry tab_b, Entry tab_c], active_index = 2\<rparr>,
             [SetItem ''tabrouter-tabs'' (JSON_stringify [Entry tab_a, Entry tab_b, Entry tab_c]),
              SetItem ''tabrouter-active-tab'' (String_of 2)])"
proof -
  let ?s = "\<lparr>tabs = [Entry tab_a, Entry tab_b], active_index = 0\<rparr>"
  have wt: "well_typed ?s" by (simp add: well_typed_def)
  have inv: "invariants ?s"
    by (simp add: invariants_def index_in_range_def unique_paths_def tab_a_def tab_b_def)
  note th = add_tab_replaces_or_appends [OF wt inv, of _ defaultConfig True]
  have "createTabsReducer defaultConfig True ?s
          (ADD_TAB \<lparr>path = ''/b'', params = Some [(''id'', PNum (Fin 5))]\<rparr>)
      = Inr (\<lparr>tabs = [Entry tab_a, Entry \<lparr>path = ''/b'', params = Some [(''id'', PNum (Fin 5))]\<rparr>],
              active_index = 1\<rparr>,
             [SetItem ''tabrouter-tabs''
                (JSON_stringify
                   [Entry tab_a, Entry \<lparr>path = ''/b'', params = Some [(''id'', PNum (Fin 5))]\<rparr>]),
              SetItem ''tabrouter-active-tab'' (String_of 1)])"
    using th [of "\<lparr>path = ''/b'', params = Some [(''id'', PNum (Fin 5))]\<rparr>",
              THEN conjunct1, rule_format, of 1 tab_b]
    by (simp add: tab_b_def persist_def defaultConfig_def)
  moreover have "createTabsReducer defaultConfig True ?s (ADD_TAB tab_c)
      = Inr (\<lparr>tabs = [Entry tab_a, Entry tab_b, Entry tab_c], active_index = 2\<rparr>,
             [SetItem ''tabrouter-tabs'' (JSON_stringify [Entry tab_a, Entry tab_b, Entry tab_c]),
              SetItem ''tabrouter-active-tab'' (String_of 2)])"
    using th [of tab_c, THEN conjunct2, THEN conjunct1]
    by (simp add: tab_a_def tab_b_def tab_c_def persist_def defaultConfig_def)
  ultimately show ?thesis using wt inv by simp
qed

section \<open>REPLACE\_TAB\<close>

text \<open>
  C6, amended. In a well-typed state that satisfies the invariants, \<open>REPLACE_TAB t\<close>
  changes only \<open>active_index\<close>, to \<open>i\<close>, when some tab at index \<open>i\<close> already has \<open>t\<close>'s path;
  otherwise, when the tab list is not empty, it overwrites the tab at \<open>active_index\<close> with
  \<open>t\<close> and leaves the length of the list and \<open>active_index\<close> unchanged.
\<close>

theorem replace_tab_switches_or_overwrites:
  assumes wt: "well_typed s" and inv: "invariants s"
  shows "(\<forall>i u. i < length (tabs s) \<and> tabs s ! i = Entry u \<and> path u = path t \<longrightarrow>
            (let s' = s\<lparr>active_index := int i\<rparr>
             in createTabsReducer cfg w s (REPLACE_TAB t) = Inr (s', persist cfg w s')))
       \<and> (path t \<notin> set (map path (entries (tabs s))) \<and> tabs s \<noteq> [] \<longrightarrow>
            (let s' = s\<lparr>tabs := (tabs s)[nat (active_index s) := Entry t]\<rparr>
             in createTabsReducer cfg w s (REPLACE_TAB t) = Inr (s', persist cfg w s')
                \<and> length (tabs s') = length (tabs s) \<and> active_index s' = active_index s))"
proof -
  from wt obtain ts where ts: "tabs s = map Entry ts" by (rule well_typed_obtain)
  from inv ts have d: "distinct (map path ts)" by (simp add: invariants_def unique_paths_def)
  have existing: "createTabsReducer cfg w s (REPLACE_TAB t)
        = Inr (s\<lparr>active_index := int i\<rparr>, persist cfg w (s\<lparr>active_index := int i\<rparr>))"
    if "i < length (tabs s)" "tabs s ! i = Entry u" "path u = path t" for i u
  proof -
    from that ts have "i < length ts" "path (ts ! i) = path t" by auto
    from replace_tab_existing [OF ts d this] show ?thesis
      by (simp add: createTabsReducer_def)
  qed
  have absent: "createTabsReducer cfg w s (REPLACE_TAB t)
        = Inr (s\<lparr>tabs := (tabs s)[nat (active_index s) := Entry t]\<rparr>,
               persist cfg w (s\<lparr>tabs := (tabs s)[nat (active_index s) := Entry t]\<rparr>))"
    if "path t \<notin> set (map path (entries (tabs s)))" "tabs s \<noteq> []"
  proof -
    from that ts have a: "path t \<notin> set (map path ts)" by simp
    from inv that(2) have r: "0 \<le> active_index s" "active_index s < int (length (tabs s))"
      by (auto simp: invariants_def index_in_range_def)
    then have "array_set (map Entry ts) (active_index s) (Entry t)
               = (tabs s)[nat (active_index s) := Entry t]"
      by (simp add: array_set_def ts)
    with replace_tab_absent [OF ts a] show ?thesis
      by (simp add: createTabsReducer_def)
  qed
  from existing absent show ?thesis unfolding Let_def by auto
qed

text \<open>The theorem at a two-tab state, for an existing and for a new path.\<close>

theorem replace_tab_switches_or_overwrites_witness:
  "well_typed \<lparr>tabs = [Entry tab_a, Entry tab_b], active_index = 0\<rparr>
   \<and> invariants \<lparr>tabs = [Entry tab_a, Entry tab_b], active_index = 0\<rparr>
   \<and> createTabsReducer defaultConfig True \<lparr>tabs = [Entry tab_a, Entry tab_b], active_index = 0\<rparr>
        (REPLACE_TAB \<lparr>path = ''/b'', params = Some [(''id'', PNum (Fin 5))]\<rparr>)
      = Inr (\<lparr>tabs = [Entry tab_a, Entry tab_b], active_index = 1\<rparr>,
             [SetItem ''tabrouter-tabs'' (JSON_stringify [Entry tab_a, Entry tab_b]),
              SetItem ''tabrouter-active-tab'' (String_of 1)])
   \<and> createTabsReducer defaultConfig True \<lparr>tabs = [Entry tab_a, Entry tab_b], active_index = 0\<rparr>
        (REPLACE_TAB tab_c)
      = Inr (\<lparr>tabs = [Entry tab_c, Entry tab_b], active_index = 0\<rparr>,
             [SetItem ''tabrouter-tabs'' (JSON_stringify [Entry tab_c, Entry tab_b]),
              SetItem ''tabrouter-active-tab'' (String_of 0)])"
proof -
  let ?s = "\<lparr>tabs = [Entry tab_a, Entry tab_b], active_index = 0\<rparr>"
  have wt: "well_typed ?s" by (simp add: well_typed_def)
  have inv: "invariants ?s"
    by (simp add: invariants_def index_in_range_def unique_paths_def tab_a_def tab_b_def)
  note th = replace_tab_switches_or_overwrites [OF wt inv, of _ defaultConfig True]
  have "createTabsReducer defaultConfig True ?s
          (REPLACE_TAB \<lparr>path = ''/b'', params = Some [(''id'', PNum (Fin 5))]\<rparr>)
      = Inr (\<lparr>tabs = [Entry tab_a, Entry tab_b], active_index = 1\<rparr>,
             [SetItem ''tabrouter-tabs'' (JSON_stringify [Entry tab_a, Entry tab_b]),
              SetItem ''tabrouter-active-tab'' (String_of 1)])"
    using th [of "\<lparr>path = ''/b'', params = Some [(''id'', PNum (Fin 5))]\<rparr>",
              THEN conjunct1, rule_format, of 1 tab_b]
    by (simp add: tab_b_def persist_def defaultConfig_def)
  moreover have "createTabsReducer defaultConfig True ?s (REPLACE_TAB tab_c)
      = Inr (\<lparr>tabs = [Entry tab_c, Entry tab_b], active_index = 0\<rparr>,
             [SetItem ''tabrouter-tabs'' (JSON_stringify [Entry tab_c, Entry tab_b]),
              SetItem ''tabrouter-active-tab'' (String_of 0)])"
    using th [of tab_c, THEN conjunct2]
    by (simp add: tab_a_def tab_b_def tab_c_def persist_def defaultConfig_def)
  ultimately show ?thesis using wt inv by simp
qed

text \<open>
  C6 as stated fails on the empty tab list, which satisfies both invariants: there is no
  tab at \<open>active_index\<close> to overwrite, the assignment \<open>newTabs[0] = newTab\<close> extends the
  array, and the list has length 1 afterwards instead of 0.
\<close>

theorem replace_tab_on_empty_list_grows:
  "well_typed \<lparr>tabs = [], active_index = 0\<rparr>
   \<and> invariants \<lparr>tabs = [], active_index = 0\<rparr>
   \<and> path tab_a \<notin> set (map path (entries (tabs \<lparr>tabs = [], active_index = 0\<rparr>)))
   \<and> createTabsReducer defaultConfig True \<lparr>tabs = [], active_index = 0\<rparr> (REPLACE_TAB tab_a)
      = Inr (\<lparr>tabs = [Entry tab_a], active_index = 0\<rparr>,
             [SetItem ''tabrouter-tabs'' (JSON_stringify [Entry tab_a]),
              SetItem ''tabrouter-active-tab'' (String_of 0)])
   \<and> length (tabs \<lparr>tabs = [Entry tab_a], active_index = 0\<rparr>)
      \<noteq> length (tabs \<lparr>tabs = [], active_index = 0\<rparr>)"
  by (simp add: well_typed_def invariants_def index_in_range_def unique_paths_def
      createTabsReducer_def findIndex_def spread_def array_set_def persist_def defaultConfig_def)

section \<open>REORDER\_TABS\<close>

text \<open>
  C9. In a well-typed state that satisfies the invariants, \<open>REORDER_TABS i i\<close> with
  \<open>0 \<le> i < length tabs\<close> returns the tab list element for element as it was and makes \<open>i\<close>
  the active index.
\<close>

theorem reorder_same_index_keeps_list:
  assumes wt: "well_typed s" and inv: "invariants s"
    and i: "0 \<le> i" "i < int (length (tabs s))"
  shows "createTabsReducer cfg w s (REORDER_TABS i i)
         = Inr (\<lparr>tabs = tabs s, active_index = i\<rparr>,
                persist cfg w \<lparr>tabs = tabs s, active_index = i\<rparr>)"
proof -
  from wt obtain ts where ts: "tabs s = map Entry ts" by (rule well_typed_obtain)
  define xs where "xs = map Entry ts"
  define a where "a = nat i"
  have a: "a < length xs" using i by (simp add: a_def xs_def ts)
  have ne: "tabs s \<noteq> []" using i by auto
  have sa: "splice_start (length xs) i = a"
    using i a by (simp add: splice_start_in_range a_def)
  have sb: "splice_start (length (take a xs @ drop (Suc a) xs)) i = a"
    using i a by (simp add: splice_start_in_range a_def)
  have eq: "take a (take a xs @ drop (Suc a) xs) @ [xs ! a] @ drop a (take a xs @ drop (Suc a) xs) = xs"
    using a by (simp add: id_take_nth_drop [symmetric] min_absorb2)
  have sp: "spread (tabs s) = xs" by (simp add: ts xs_def)
  have m: "transition s (REORDER_TABS i i) = Inr (Some \<lparr>tabs = xs, active_index = i\<rparr>)"
    using reorder_moves [OF ne i(2), of i]
    by (simp only: Let_def sp sa sb eq)
  show ?thesis unfolding createTabsReducer_def m by (simp add: xs_def ts)
qed

text \<open>The theorem at a three-tab state and index 1.\<close>

theorem reorder_same_index_keeps_list_witness:
  "well_typed \<lparr>tabs = [Entry tab_a, Entry tab_b, Entry tab_c], active_index = 0\<rparr>
   \<and> invariants \<lparr>tabs = [Entry tab_a, Entry tab_b, Entry tab_c], active_index = 0\<rparr>
   \<and> createTabsReducer defaultConfig True
        \<lparr>tabs = [Entry tab_a, Entry tab_b, Entry tab_c], active_index = 0\<rparr> (REORDER_TABS 1 1)
      = Inr (\<lparr>tabs = [Entry tab_a, Entry tab_b, Entry tab_c], active_index = 1\<rparr>,
             [SetItem ''tabrouter-tabs'' (JSON_stringify [Entry tab_a, Entry tab_b, Entry tab_c]),
              SetItem ''tabrouter-active-tab'' (String_of 1)])"
proof -
  let ?s = "\<lparr>tabs = [Entry tab_a, Entry tab_b, Entry tab_c], active_index = 0\<rparr>"
  have wt: "well_typed ?s" by (simp add: well_typed_def)
  have inv: "invariants ?s"
    by (simp add: invariants_def index_in_range_def unique_paths_def tab_a_def tab_b_def tab_c_def)
  have "createTabsReducer defaultConfig True ?s (REORDER_TABS 1 1)
      = Inr (\<lparr>tabs = [Entry tab_a, Entry tab_b, Entry tab_c], active_index = 1\<rparr>,
             [SetItem ''tabrouter-tabs'' (JSON_stringify [Entry tab_a, Entry tab_b, Entry tab_c]),
              SetItem ''tabrouter-active-tab'' (String_of 1)])"
    using reorder_same_index_keeps_list [OF wt inv, of 1 defaultConfig True]
    by (simp add: persist_def defaultConfig_def)
  then show ?thesis using wt inv by simp
qed

section \<open>SET\_ACTIVE\_TAB\<close>

text \<open>
  C10, amended. When the active tab of a well-typed state has path \<open>P\<close> and no tab before
  it has path \<open>P\<close> (as in every state in which no two tabs share a path),
  \<open>SET_ACTIVE_TAB P\<close> does not take the early return: the \<open>switch\<close> builds a new state, equal
  to the input in both fields, and the reducer returns it; it writes both storage keys when
  \<open>window\<close> is defined and nothing when it is not.
\<close>

theorem set_active_tab_on_first_match_persists:
  assumes wt: "well_typed s"
    and rng: "0 \<le> active_index s" "active_index s < int (length (tabs s))"
    and act: "tabs s ! nat (active_index s) = Entry t" "path t = P"
    and first: "\<forall>j < nat (active_index s). \<forall>u. tabs s ! j = Entry u \<longrightarrow> path u \<noteq> P"
  shows "transition s (SET_ACTIVE_TAB P) = Inr (Some s)
       \<and> createTabsReducer cfg w s (SET_ACTIVE_TAB P)
         = Inr (s, if w then [SetItem (storageKey cfg) (JSON_stringify (tabs s)),
                             SetItem (activeTabStorageKey cfg) (String_of (active_index s))]
                   else [])"
proof -
  from wt obtain ts where ts: "tabs s = map Entry ts" by (rule well_typed_obtain)
  define c where "c = nat (active_index s)"
  have c: "c < length ts" "int c = active_index s" using rng by (simp_all add: c_def ts)
  have pc: "path (ts ! c) = P" using act c ts by (simp add: c_def)
  have "\<forall>j < c. path (ts ! j) \<noteq> P"
  proof (intro allI impI)
    fix j assume j: "j < c"
    with c have "tabs s ! j = Entry (ts ! j)" by (simp add: ts)
    with first j show "path (ts ! j) \<noteq> P" by (simp add: c_def)
  qed
  with c pc have "findIndex (\<lambda>u. path u = P) (map Entry ts) = Inr (int c)"
    unfolding findIndex_def using findIndex_from_at [of c ts "\<lambda>u. path u = P" 0] by simp
  then have tr: "transition s (SET_ACTIVE_TAB P) = Inr (Some s)"
    using c by (simp add: ts)
  show ?thesis unfolding createTabsReducer_def tr by (simp add: persist_def)
qed

text \<open>The theorem at a two-tab state whose second tab is active, with and without \<open>window\<close>.\<close>

theorem set_active_tab_on_first_match_persists_witness:
  "well_typed \<lparr>tabs = [Entry tab_a, Entry tab_b], active_index = 1\<rparr>
   \<and> tabs \<lparr>tabs = [Entry tab_a, Entry tab_b], active_index = 1\<rparr>
       ! nat (active_index \<lparr>tabs = [Entry tab_a, Entry tab_b], active_index = 1\<rparr>) = Entry tab_b
   \<and> path tab_b = ''/b'' \<and> path tab_a \<noteq> ''/b''
   \<and> createTabsReducer defaultConfig True \<lparr>tabs = [Entry tab_a, Entry tab_b], active_index = 1\<rparr>
        (SET_ACTIVE_TAB ''/b'')
      = Inr (\<lparr>tabs = [Entry tab_a, Entry tab_b], active_index = 1\<rparr>,
             [SetItem ''tabrouter-tabs'' (JSON_stringify [Entry tab_a, Entry tab_b]),
              SetItem ''tabrouter-active-tab'' (String_of 1)])
   \<and> createTabsReducer defaultConfig False \<lparr>tabs = [Entry tab_a, Entry tab_b], active_index = 1\<rparr>
        (SET_ACTIVE_TAB ''/b'')
      = Inr (\<lparr>tabs = [Entry tab_a, Entry tab_b], active_index = 1\<rparr>, [])"
proof -
  let ?s = "\<lparr>tabs = [Entry tab_a, Entry tab_b], active_index = 1\<rparr>"
  have wt: "well_typed ?s" by (simp add: well_typed_def)
  have rng: "0 \<le> active_index ?s" "active_index ?s < int (length (tabs ?s))" by simp_all
  have act: "tabs ?s ! nat (active_index ?s) = Entry tab_b" "path tab_b = ''/b''"
    by (simp_all add: tab_b_def)
  have pa: "path tab_a \<noteq> ''/b''" by (simp add: tab_a_def)
  have first: "\<forall>j < nat (active_index ?s). \<forall>u. tabs ?s ! j = Entry u \<longrightarrow> path u \<noteq> ''/b''"
    using pa by simp
  note th = set_active_tab_on_first_match_persists [OF wt rng act first, of defaultConfig]
  from th [of True] th [of False] wt act pa
  show ?thesis by (simp del: transition.simps add: defaultConfig_def)
qed

text \<open>
  C10 as stated fails twice. With two tabs on path \<open>/a\<close> and the second one active,
  \<open>findIndex\<close> answers 0, so \<open>SET_ACTIVE_TAB\<close> of that path returns \<open>active_index = 0\<close> and
  writes it; and where \<open>window\<close> is undefined the branch writes nothing.
\<close>

theorem set_active_tab_duplicate_or_windowless:
  "tabs \<lparr>tabs = [Entry \<lparr>path = ''/a'', params = None\<rparr>,
                  Entry \<lparr>path = ''/a'', params = Some []\<rparr>], active_index = 1\<rparr>
     ! nat (active_index
             \<lparr>tabs = [Entry \<lparr>path = ''/a'', params = None\<rparr>,
                      Entry \<lparr>path = ''/a'', params = Some []\<rparr>], active_index = 1\<rparr>)
   = Entry \<lparr>path = ''/a'', params = Some []\<rparr>
   \<and> createTabsReducer defaultConfig True
        \<lparr>tabs = [Entry \<lparr>path = ''/a'', params = None\<rparr>,
                 Entry \<lparr>path = ''/a'', params = Some []\<rparr>], active_index = 1\<rparr>
        (SET_ACTIVE_TAB ''/a'')
      = Inr (\<lparr>tabs = [Entry \<lparr>path = ''/a'', params = None\<rparr>,
                      Entry \<lparr>path = ''/a'', params = Some []\<rparr>], active_index = 0\<rparr>,
             [SetItem ''tabrouter-tabs''
                (JSON_stringify [Entry \<lparr>path = ''/a'', params = None\<rparr>,
                                 Entry \<lparr>path = ''/a'', params = Some []\<rparr>]),
              SetItem ''tabrouter-active-tab'' (String_of 0)])
   \<and> createTabsReducer defaultConfig False \<lparr>tabs = [Entry tab_a, Entry tab_b], active_index = 1\<rparr>
        (SET_ACTIVE_TAB ''/b'')
      = Inr (\<lparr>tabs = [Entry tab_a, Entry tab_b], active_index = 1\<rparr>, [])"
  by (simp add: createTabsReducer_def findIndex_def persist_def defaultConfig_def
      tab_a_def tab_b_def)

section \<open>Persistence\<close>

lemma findIndex_cases:
  "(findIndex p (map Entry ts) = Inr (- 1) \<and> (\<forall>t \<in> set ts. \<not> p t))
   \<or> (\<exists>c < length ts. p (ts ! c) \<and> findIndex p (map Entry ts) = Inr (int c))"
proof (cases "\<forall>t \<in> set ts. \<not> p t")
  case True
  then show ?thesis by (simp add: findIndex_def findIndex_from_absent)
next
  case False
  then obtain k where k: "k < length ts" "p (ts ! k)" by (auto simp: in_set_conv_nth)
  define c where "c = (LEAST k. k < length ts \<and> p (ts ! k))"
  have c: "c < length ts \<and> p (ts ! c)"
    unfolding c_def by (rule LeastI [of _ k]) (use k in simp)
  have "\<forall>j < c. \<not> p (ts ! j)"
  proof (intro allI impI)
    fix j assume j: "j < c"
    show "\<not> p (ts ! j)"
    proof
      assume "p (ts ! j)"
      with j c have "j < length ts \<and> p (ts ! j)" by simp
      then have "c \<le> j" unfolding c_def by (rule Least_le)
      with j show False by simp
    qed
  qed
  with c have "findIndex p (map Entry ts) = Inr (int c)"
    unfolding findIndex_def using findIndex_from_at [of c ts p 0] by simp
  with c show ?thesis by blast
qed

lemma findIndex_noop_iff:
  "(\<exists>c. findIndex (\<lambda>u. path u = P) (map Entry ts) = Inr c
        \<and> (c = - 1 \<longleftrightarrow> P \<notin> set (map path ts)) \<and> - 1 \<le> c)"
  using findIndex_cases [of "\<lambda>u. path u = P" ts] by force

lemma transition_branches:
  assumes ts: "tabs s = map Entry ts"
  shows "(noop_branch s a \<longrightarrow> transition s a = Inr None)
       \<and> (\<not> noop_branch s a \<longrightarrow> (\<exists>s'. transition s a = Inr (Some s')))"
proof (cases a)
  case (ADD_TAB t)
  obtain c where "findIndex (\<lambda>u. path u = path t) (map Entry ts) = Inr c"
    using findIndex_noop_iff by blast
  then show ?thesis by (simp add: ADD_TAB ts Let_def)
next
  case (REPLACE_TAB t)
  obtain c where "findIndex (\<lambda>u. path u = path t) (map Entry ts) = Inr c"
    using findIndex_noop_iff by blast
  then show ?thesis by (simp add: REPLACE_TAB ts Let_def)
next
  case (CLOSE_TAB P)
  obtain c where c: "findIndex (\<lambda>u. path u = P) (map Entry ts) = Inr c"
    "c = - 1 \<longleftrightarrow> P \<notin> set (map path ts)"
    using findIndex_noop_iff by blast
  have "length ts = 1 \<or> P \<notin> set (map path ts) \<longleftrightarrow> length ts < 2 \<or> P \<notin> set (map path ts)"
    by (cases ts) auto
  with c show ?thesis by (auto simp add: CLOSE_TAB ts Let_def)
next
  case (CLOSE_OTHER_TABS P)
  have "List.find (\<lambda>u. path u = P) ts = None \<longleftrightarrow> P \<notin> set (map path ts)"
    by (auto simp: find_None_iff)
  then show ?thesis
    by (cases "List.find (\<lambda>u. path u = P) ts") (auto simp: CLOSE_OTHER_TABS ts find_tab_map_Entry)
next
  case (SET_ACTIVE_TAB P)
  obtain c where c: "findIndex (\<lambda>u. path u = P) (map Entry ts) = Inr c"
    "c = - 1 \<longleftrightarrow> P \<notin> set (map path ts)"
    using findIndex_noop_iff by blast
  then show ?thesis by (auto simp add: SET_ACTIVE_TAB ts)
next
  case (REORDER_TABS f t)
  then show ?thesis by (simp add: Let_def split: prod.splits)
next
  case (UPDATE_TAB_PARAMS P ps)
  obtain c where c: "findIndex (\<lambda>u. path u = P) (map Entry ts) = Inr c"
    "c = - 1 \<longleftrightarrow> P \<notin> set (map path ts)"
    using findIndex_noop_iff by blast
  then show ?thesis by (auto simp add: UPDATE_TAB_PARAMS ts)
qed

text \<open>
  C7, amended. On a well-typed state the reducer writes nothing on a no-op branch
  (\<open>CLOSE_TAB\<close> of an absent path or of the only tab; \<open>CLOSE_OTHER_TABS\<close>, \<open>SET_ACTIVE_TAB\<close>,
  \<open>UPDATE_TAB_PARAMS\<close> of an absent path) and returns the state it was given. On every other
  branch the \<open>switch\<close> produces a state, and the reducer writes the tab-list key and the
  active-index key of that state, in this order, when \<open>window\<close> is defined, and writes
  nothing when it is not.
\<close>

theorem writes_follow_window_on_producing_branches:
  assumes wt: "well_typed s"
  shows "(noop_branch s a \<longrightarrow> createTabsReducer cfg w s a = Inr (s, []))
       \<and> (\<not> noop_branch s a \<longrightarrow>
            (\<exists>s'. transition s a = Inr (Some s')
                 \<and> createTabsReducer cfg w s a
                   = Inr (s', if w then [SetItem (storageKey cfg) (JSON_stringify (tabs s')),
                                        SetItem (activeTabStorageKey cfg)
                                          (String_of (active_index s'))]
                              else [])))"
proof -
  from wt obtain ts where ts: "tabs s = map Entry ts" by (rule well_typed_obtain)
  note br = transition_branches [OF ts, of a]
  show ?thesis
  proof (cases "noop_branch s a")
    case True
    with br have "transition s a = Inr None" by simp
    with True show ?thesis by (simp add: createTabsReducer_def)
  next
    case False
    with br obtain s' where "transition s a = Inr (Some s')" by blast
    with False show ?thesis by (simp add: createTabsReducer_def persist_def)
  qed
qed

text \<open>The theorem at a two-tab state: a no-op branch and a branch that produces a state.\<close>

theorem writes_follow_window_on_producing_branches_witness:
  "well_typed \<lparr>tabs = [Entry tab_a, Entry tab_b], active_index = 0\<rparr>
   \<and> noop_branch \<lparr>tabs = [Entry tab_a, Entry tab_b], active_index = 0\<rparr> (SET_ACTIVE_TAB ''/x'')
   \<and> createTabsReducer defaultConfig True \<lparr>tabs = [Entry tab_a, Entry tab_b], active_index = 0\<rparr>
        (SET_ACTIVE_TAB ''/x'')
      = Inr (\<lparr>tabs = [Entry tab_a, Entry tab_b], active_index = 0\<rparr>, [])
   \<and> \<not> noop_branch \<lparr>tabs = [Entry tab_a, Entry tab_b], active_index = 0\<rparr> (CLOSE_TAB ''/a'')
   \<and> createTabsReducer defaultConfig True \<lparr>tabs = [Entry tab_a, Entry tab_b], active_index = 0\<rparr>
        (CLOSE_TAB ''/a'')
      = Inr (\<lparr>tabs = [Entry tab_b], active_index = 0\<rparr>,
             [SetItem ''tabrouter-tabs'' (JSON_stringify [Entry tab_b]),
              SetItem ''tabrouter-active-tab'' (String_of 0)])"
proof -
  let ?s = "\<lparr>tabs = [Entry tab_a, Entry tab_b], active_index = 0\<rparr>"
  have wt: "well_typed ?s" by (simp add: well_typed_def)
  have n1: "noop_branch ?s (SET_ACTIVE_TAB ''/x'')" by (simp add: tab_a_def tab_b_def)
  have n2: "\<not> noop_branch ?s (CLOSE_TAB ''/a'')" by (simp add: tab_a_def tab_b_def)
  note th = writes_follow_window_on_producing_branches [OF wt, of _ defaultConfig True]
  from th [of "SET_ACTIVE_TAB ''/x''"] n1
  have r1: "createTabsReducer defaultConfig True ?s (SET_ACTIVE_TAB ''/x'') = Inr (?s, [])"
    by blast
  from th [of "CLOSE_TAB ''/a''"] n2
  obtain s' where s': "transition ?s (CLOSE_TAB ''/a'') = Inr (Some s')"
    "createTabsReducer defaultConfig True ?s (CLOSE_TAB ''/a'')
       = Inr (s', [SetItem (storageKey defaultConfig) (JSON_stringify (tabs s')),
                   SetItem (activeTabStorageKey defaultConfig) (String_of (active_index s'))])"
    by auto
  have "transition ?s (CLOSE_TAB ''/a'') = Inr (Some \<lparr>tabs = [Entry tab_b], active_index = 0\<rparr>)"
    by (simp add: findIndex_def filter_idx_def tab_a_def tab_b_def)
  with s'(1) have "s' = \<lparr>tabs = [Entry tab_b], active_index = 0\<rparr>" by simp
  with s'(2) have r2: "createTabsReducer defaultConfig True ?s (CLOSE_TAB ''/a'')
      = Inr (\<lparr>tabs = [Entry tab_b], active_index = 0\<rparr>,
             [SetItem ''tabrouter-tabs'' (JSON_stringify [Entry tab_b]),
              SetItem ''tabrouter-active-tab'' (String_of 0)])"
    by (simp add: defaultConfig_def)
  from wt n1 r1 n2 r2 show ?thesis by blast
qed

text \<open>
  C7 as stated fails where \<open>window\<close> is undefined: \<open>ADD_TAB\<close> of a new path produces a state
  and the reducer writes nothing.
\<close>

theorem producing_branch_without_window_writes_nothing:
  "well_typed \<lparr>tabs = [Entry tab_a, Entry tab_b], active_index = 0\<rparr>
   \<and> transition \<lparr>tabs = [Entry tab_a, Entry tab_b], active_index = 0\<rparr> (ADD_TAB tab_c)
     = Inr (Some \<lparr>tabs = [Entry tab_a, Entry tab_b, Entry tab_c], active_index = 2\<rparr>)
   \<and> createTabsReducer defaultConfig False \<lparr>tabs = [Entry tab_a, Entry tab_b], active_index = 0\<rparr>
        (ADD_TAB tab_c)
      = Inr (\<lparr>tabs = [Entry tab_a, Entry tab_b, Entry tab_c], active_index = 2\<rparr>, [])"
  by (simp add: well_typed_def createTabsReducer_def findIndex_def spread_def persist_def
      tab_a_def tab_b_def tab_c_def)

section \<open>REORDER\_TABS with arbitrary indices\<close>

lemma mset_take_drop: "mset (take b xs) + mset (drop b xs) = mset xs"
  by (metis append_take_drop_id mset_append)

text \<open>
  C3, amended. \<open>REORDER_TABS\<close> has no guard: for every state and every pair of integers,
  inside \<open>[0, length tabs)\<close> or not, it does not throw and it is not a no-op branch. The
  \<open>switch\<close> produces a state, the reducer writes both keys when \<open>window\<close> is defined and
  nothing otherwise, and the returned \<open>active_index\<close> is \<open>toIndex\<close>. When the list is not
  empty and \<open>fromIndex < length tabs\<close>, the returned list holds exactly the entries of the
  copied input, each as often as there; for a well-typed input these are the input's tabs,
  so the returned list has no hole and no \<open>undefined\<close> entry. Nothing is said about the
  returned list when the list is empty or \<open>fromIndex\<close> is at or past its end.
\<close>

theorem reorder_always_produces_state:
  "\<exists>s'. transition s (REORDER_TABS f t) = Inr (Some s')
        \<and> createTabsReducer cfg w s (REORDER_TABS f t)
          = Inr (s', if w then [SetItem (storageKey cfg) (JSON_stringify (tabs s')),
                               SetItem (activeTabStorageKey cfg) (String_of (active_index s'))]
                     else [])
        \<and> active_index s' = t
        \<and> (tabs s \<noteq> [] \<and> f < int (length (tabs s))
             \<longrightarrow> mset (tabs s') = mset (spread (tabs s)))
        \<and> (well_typed s \<and> tabs s \<noteq> [] \<and> f < int (length (tabs s))
             \<longrightarrow> mset (tabs s') = mset (tabs s) \<and> well_typed s')"
proof (cases "tabs s \<noteq> [] \<and> f < int (length (tabs s))")
  case True
  define xs where "xs = spread (tabs s)"
  define a where "a = splice_start (length xs) f"
  define rest where "rest = take a xs @ drop (Suc a) xs"
  define b where "b = splice_start (length rest) t"
  define s' where "s' = \<lparr>tabs = take b rest @ [xs ! a] @ drop b rest, active_index = t\<rparr>"
  have a: "a < length xs" unfolding a_def using True by (intro splice_start_lt) (auto simp: xs_def)
  from True have ne: "tabs s \<noteq> []" and lt: "f < int (length (tabs s))" by auto
  have m: "transition s (REORDER_TABS f t) = Inr (Some s')"
    using reorder_moves [OF ne lt, of t]
    by (simp only: Let_def xs_def [symmetric] a_def [symmetric] rest_def [symmetric]
        b_def [symmetric] s'_def [symmetric])
  have "mset (take b rest @ [xs ! a] @ drop b rest) = add_mset (xs ! a) (mset rest)"
    by (simp add: mset_take_drop)
  also have "\<dots> = mset (take a xs @ xs ! a # drop (Suc a) xs)" by (simp add: rest_def)
  also have "\<dots> = mset xs" using a by (simp only: id_take_nth_drop [symmetric])
  finally have ms: "mset (tabs s') = mset (spread (tabs s))" by (simp add: s'_def xs_def)
  have typed: "mset (tabs s') = mset (tabs s) \<and> well_typed s'" if wt: "well_typed s"
  proof -
    from wt obtain ts where ts: "tabs s = map Entry ts" by (rule well_typed_obtain)
    with ms have e: "mset (tabs s') = mset (tabs s)" by simp
    then have "set (tabs s') = set (tabs s)" by (rule mset_eq_setD)
    with wt have "well_typed s'" by (simp add: well_typed_def list_all_iff)
    with e show ?thesis by simp
  qed
  have ai: "active_index s' = t" by (simp add: s'_def)
  have cr: "createTabsReducer cfg w s (REORDER_TABS f t)
          = Inr (s', if w then [SetItem (storageKey cfg) (JSON_stringify (tabs s')),
                               SetItem (activeTabStorageKey cfg) (String_of (active_index s'))]
                     else [])"
    unfolding createTabsReducer_def m by (simp add: persist_def)
  from m cr ai ms typed show ?thesis by blast
next
  case False
  define xs where "xs = spread (tabs s)"
  define b where "b = splice_start (length xs) t"
  define s' where "s' = \<lparr>tabs = take b xs @ [Undefined] @ drop b xs, active_index = t\<rparr>"
  from False have past: "tabs s = [] \<or> int (length (tabs s)) \<le> f" by auto
  have m: "transition s (REORDER_TABS f t) = Inr (Some s')"
    using reorder_inserts_undefined [OF past, of t]
    by (simp only: Let_def xs_def [symmetric] b_def [symmetric] s'_def [symmetric])
  have ai: "active_index s' = t" by (simp add: s'_def)
  have cr: "createTabsReducer cfg w s (REORDER_TABS f t)
          = Inr (s', if w then [SetItem (storageKey cfg) (JSON_stringify (tabs s')),
                               SetItem (activeTabStorageKey cfg) (String_of (active_index s'))]
                     else [])"
    unfolding createTabsReducer_def m by (simp add: persist_def)
  from m cr ai False show ?thesis by blast
qed

text \<open>The theorem at \<open>REORDER_TABS (-1) 5\<close> on two tabs.\<close>

theorem reorder_always_produces_state_witness:
  "well_typed \<lparr>tabs = [Entry tab_a, Entry tab_b], active_index = 0\<rparr>
   \<and> tabs \<lparr>tabs = [Entry tab_a, Entry tab_b], active_index = 0\<rparr> \<noteq> []
   \<and> - 1 < int (length (tabs \<lparr>tabs = [Entry tab_a, Entry tab_b], active_index = 0\<rparr>))
   \<and> (\<exists>s'. createTabsReducer defaultConfig True
               \<lparr>tabs = [Entry tab_a, Entry tab_b], active_index = 0\<rparr> (REORDER_TABS (- 1) 5)
             = Inr (s', [SetItem ''tabrouter-tabs'' (JSON_stringify (tabs s')),
                         SetItem ''tabrouter-active-tab'' (String_of 5)])
          \<and> active_index s' = 5
          \<and> mset (tabs s') = {#Entry tab_a, Entry tab_b#}
          \<and> well_typed s')"
proof -
  let ?s = "\<lparr>tabs = [Entry tab_a, Entry tab_b], active_index = 0\<rparr>"
  have wt: "well_typed ?s" by (simp add: well_typed_def)
  have ne: "tabs ?s \<noteq> []" by simp
  have lt: "- 1 < int (length (tabs ?s))" by simp
  from reorder_always_produces_state [of ?s "- 1" 5 defaultConfig True]
  obtain s' where s': "createTabsReducer defaultConfig True ?s (REORDER_TABS (- 1) 5)
      = Inr (s', [SetItem (storageKey defaultConfig) (JSON_stringify (tabs s')),
                  SetItem (activeTabStorageKey defaultConfig) (String_of (active_index s'))])"
    "active_index s' = 5"
    "well_typed ?s \<and> tabs ?s \<noteq> [] \<and> - 1 < int (length (tabs ?s))
       \<longrightarrow> mset (tabs s') = mset (tabs ?s) \<and> well_typed s'"
    by auto
  from s'(3) wt ne lt have "mset (tabs s') = mset (tabs ?s)" "well_typed s'" by blast+
  with s'(1,2) wt ne lt show ?thesis
    by (intro conjI exI [of _ s']) (simp_all add: defaultConfig_def)
qed

text \<open>
  C3 as stated fails: with one tab, \<open>REORDER_TABS 0 5\<close> returns \<open>active_index = 5\<close> and
  \<open>REORDER_TABS 3 0\<close> returns a list with an \<open>undefined\<close> entry; both write to storage and
  neither returns the input state.
\<close>

theorem reorder_out_of_range_changes_state:
  "createTabsReducer defaultConfig True \<lparr>tabs = [Entry tab_a], active_index = 0\<rparr>
     (REORDER_TABS 0 5)
   = Inr (\<lparr>tabs = [Entry tab_a], active_index = 5\<rparr>,
          [SetItem ''tabrouter-tabs'' (JSON_stringify [Entry tab_a]),
           SetItem ''tabrouter-active-tab'' (String_of 5)])
   \<and> createTabsReducer defaultConfig True \<lparr>tabs = [Entry tab_a], active_index = 0\<rparr>
        (REORDER_TABS 3 0)
      = Inr (\<lparr>tabs = [Undefined, Entry tab_a], active_index = 0\<rparr>,
             [SetItem ''tabrouter-tabs'' (JSON_stringify [Undefined, Entry tab_a]),
              SetItem ''tabrouter-active-tab'' (String_of 0)])"
  by (simp add: createTabsReducer_def splice_def spread_def Let_def persist_def defaultConfig_def)

section \<open>Preservation of the invariants\<close>

lemma list_all_map_Entry [simp]: "list_all is_Entry (map Entry ts)"
  by (simp add: list_all_iff)

lemma entries_holes [simp]: "entries (replicate n Hole) = []"
  by (induction n) auto

lemma distinct_paths_update:
  "distinct (map path ts) \<Longrightarrow> path t \<notin> set (map path ts) \<Longrightarrow> distinct (map path (ts[k := t]))"
  by (simp add: map_update distinct_list_update)

lemma entries_append [simp]: "entries (xs @ ys) = entries xs @ entries ys"
  by (induction xs rule: entries.induct) auto

lemma distinct_remove_nth:
  assumes "distinct xs"
  shows "distinct (take c xs @ drop (Suc c) xs)"
proof -
  have "set (take c xs) \<inter> set (drop (Suc c) xs) = {}"
    using assms by (intro set_take_disj_set_drop_if_distinct) auto
  with assms show ?thesis by simp
qed

lemma distinct_paths_remove:
  assumes "distinct (map path ts)"
  shows "distinct (map path (take c ts @ drop (Suc c) ts))"
proof -
  have "map path (take c ts @ drop (Suc c) ts)
        = take c (map path ts) @ drop (Suc c) (map path ts)"
    by (simp add: take_map drop_map)
  with distinct_remove_nth [OF assms, of c] show ?thesis by simp
qed

lemma add_tab_preserves:
  assumes ts: "tabs s = map Entry ts" and d: "distinct (map path ts)"
    and tr: "transition s (ADD_TAB t) = Inr (Some s')"
  shows "invariants s' \<and> well_typed s' \<and> tabs s' \<noteq> []"
proof (cases "path t \<in> set (map path ts)")
  case True
  then obtain i where i: "i < length ts" "path (ts ! i) = path t" using path_present by blast
  from add_tab_existing [OF ts d i] tr
  have s': "s' = s\<lparr>active_index := int i, tabs := map Entry (ts[i := t])\<rparr>" by simp
  have "distinct (map path (ts[i := t]))" using d i by (simp add: keeps_paths)
  with i show ?thesis
    by (auto simp: s' invariants_def index_in_range_def unique_paths_def well_typed_def)
next
  case False
  from add_tab_absent [OF ts False] tr
  have s': "s' = \<lparr>tabs = map Entry (ts @ [t]), active_index = int (length ts)\<rparr>" by simp
  from d False show ?thesis
    by (auto simp: s' invariants_def index_in_range_def unique_paths_def well_typed_def)
qed

lemma replace_tab_preserves:
  assumes ts: "tabs s = map Entry ts" and d: "distinct (map path ts)"
    and r: "index_in_range s"
    and tr: "transition s (REPLACE_TAB t) = Inr (Some s')"
  shows "invariants s' \<and> (tabs s \<noteq> [] \<longrightarrow> well_typed s' \<and> tabs s' \<noteq> [])"
proof (cases "path t \<in> set (map path ts)")
  case True
  then obtain i where i: "i < length ts" "path (ts ! i) = path t" using path_present by blast
  from replace_tab_existing [OF ts d i] tr
  have s': "s' = s\<lparr>active_index := int i\<rparr>" by simp
  from i d ts show ?thesis
    by (auto simp: s' invariants_def index_in_range_def unique_paths_def well_typed_def)
next
  case False
  from replace_tab_absent [OF ts False] tr
  have s': "s' = s\<lparr>tabs := array_set (map Entry ts) (active_index s) (Entry t)\<rparr>" by simp
  show ?thesis
  proof (cases "ts = []")
    case True
    then show ?thesis
      by (auto simp: s' ts array_set_def invariants_def index_in_range_def unique_paths_def)
  next
    case ne: False
    with r ts have k: "0 \<le> active_index s" "active_index s < int (length ts)"
      by (auto simp: index_in_range_def)
    then have a: "array_set (map Entry ts) (active_index s) (Entry t)
                  = map Entry (ts[nat (active_index s) := t])"
      by (simp add: array_set_def map_update)
    have "distinct (map path (ts[nat (active_index s) := t]))"
      using d False by (rule distinct_paths_update)
    with k ne show ?thesis
      by (auto simp: s' a invariants_def index_in_range_def unique_paths_def well_typed_def)
  qed
qed

lemma close_tab_preserves:
  assumes ts: "tabs s = map Entry ts" and d: "distinct (map path ts)"
    and r: "index_in_range s"
    and tr: "transition s (CLOSE_TAB P) = Inr (Some s')"
  shows "invariants s' \<and> well_typed s' \<and> tabs s' \<noteq> []"
proof -
  have nn: "\<not> (P \<notin> set (map path ts) \<or> length ts < 2)"
  proof
    assume "P \<notin> set (map path ts) \<or> length ts < 2"
    from close_tab_noop [OF ts this] tr show False by simp
  qed
  then obtain c where c: "c < length ts" "path (ts ! c) = P" using path_present by blast
  from nn have len: "2 \<le> length ts" by simp
  define nt where "nt = take c ts @ drop (Suc c) ts"
  from close_tab_present [OF ts d c len] tr
  have s': "s' = \<lparr>tabs = map Entry nt,
                   active_index =
                     (if active_index s = int c then min (int c) (int (length ts) - 2)
                      else if int c < active_index s then active_index s - 1
                      else active_index s)\<rparr>" by (simp add: nt_def)
  have l: "int (length nt) = int (length ts) - 1" "nt \<noteq> []" using c len by (auto simp: nt_def)
  from r ts len have k: "0 \<le> active_index s" "active_index s < int (length ts)"
    by (auto simp: index_in_range_def)
  have u: "unique_paths s'"
    unfolding unique_paths_def s' nt_def using distinct_paths_remove [OF d, of c] by simp
  have i: "index_in_range s'"
    unfolding index_in_range_def s' using k c len l by (simp add: min_def)
  from u i l show ?thesis by (simp add: invariants_def well_typed_def s')
qed

lemma close_others_preserves:
  assumes ts: "tabs s = map Entry ts" and d: "distinct (map path ts)"
    and tr: "transition s (CLOSE_OTHER_TABS P) = Inr (Some s')"
  shows "invariants s' \<and> well_typed s' \<and> tabs s' \<noteq> []"
proof -
  have "P \<in> set (map path ts)"
    using close_others_absent [OF ts, of P] tr by auto
  then obtain i where i: "i < length ts" "path (ts ! i) = P" using path_present by blast
  from close_others_present [OF ts d i] tr
  have "s' = \<lparr>tabs = [Entry (ts ! i)], active_index = 0\<rparr>" by simp
  then show ?thesis
    by (simp add: invariants_def index_in_range_def unique_paths_def well_typed_def)
qed

lemma set_active_preserves:
  assumes ts: "tabs s = map Entry ts" and d: "distinct (map path ts)"
    and tr: "transition s (SET_ACTIVE_TAB P) = Inr (Some s')"
  shows "invariants s' \<and> well_typed s' \<and> tabs s' \<noteq> []"
proof -
  have "P \<in> set (map path ts)"
    using set_active_absent [OF ts, of P] tr by auto
  then obtain i where i: "i < length ts" "path (ts ! i) = P" using path_present by blast
  from set_active_present [OF ts d i] tr
  have "s' = s\<lparr>active_index := int i\<rparr>" by simp
  with i d ts show ?thesis
    by (auto simp: invariants_def index_in_range_def unique_paths_def well_typed_def)
qed

lemma update_params_preserves:
  assumes ts: "tabs s = map Entry ts" and d: "distinct (map path ts)"
    and tr: "transition s (UPDATE_TAB_PARAMS P ps) = Inr (Some s')"
  shows "invariants s' \<and> well_typed s' \<and> tabs s' \<noteq> []"
proof -
  have "P \<in> set (map path ts)"
    using update_params_absent [OF ts, of P ps] tr by auto
  then obtain i where i: "i < length ts" "path (ts ! i) = P" using path_present by blast
  define q where "q = (case ps of None \<Rightarrow> Some [] | Some q \<Rightarrow> Some q)"
  from update_params_present [OF ts d i, of ps] tr
  have s': "s' = s\<lparr>tabs := map Entry (ts[i := (ts ! i)\<lparr>params := q\<rparr>]), active_index := int i\<rparr>"
    by (simp add: q_def)
  have "distinct (map path (ts[i := (ts ! i)\<lparr>params := q\<rparr>]))"
    using d i by (simp add: keeps_paths)
  with i show ?thesis
    by (auto simp: s' invariants_def index_in_range_def unique_paths_def well_typed_def)
qed

lemma reorder_preserves:
  assumes ts: "tabs s = map Entry ts" and d: "distinct (map path ts)"
    and f: "0 \<le> f" "f < int (length (tabs s))" and t: "0 \<le> t" "t < int (length (tabs s))"
    and tr: "transition s (REORDER_TABS f t) = Inr (Some s')"
  shows "invariants s' \<and> well_typed s' \<and> tabs s' \<noteq> []"
proof -
  define a where "a = nat f"
  define b where "b = nat t"
  define rest where "rest = take a ts @ drop (Suc a) ts"
  define ts' where "ts' = take b rest @ [ts ! a] @ drop b rest"
  have a: "a < length ts" and b: "b < length ts" using f t by (simp_all add: a_def b_def ts)
  have ne: "tabs s \<noteq> []" using f by auto
  have lr: "length rest = length ts - 1" using a by (simp add: rest_def)
  have sp: "spread (tabs s) = map Entry ts" by (simp add: ts)
  have sa: "splice_start (length (map Entry ts)) f = a"
    using f by (simp add: splice_start_in_range a_def ts)
  have mr: "take a (map Entry ts) @ drop (Suc a) (map Entry ts) = map Entry rest"
    by (simp add: rest_def take_map drop_map)
  have sb: "splice_start (length (map Entry rest)) t = b"
    using t b by (simp add: splice_start_in_range b_def lr ts)
  have mt: "take b (map Entry rest) @ [map Entry ts ! a] @ drop b (map Entry rest) = map Entry ts'"
    using a by (simp add: ts'_def take_map drop_map)
  have "transition s (REORDER_TABS f t) = Inr (Some \<lparr>tabs = map Entry ts', active_index = t\<rparr>)"
    using reorder_moves [OF ne f(2), of t]
    by (simp only: Let_def sp sa mr sb mt)
  with tr have s': "s' = \<lparr>tabs = map Entry ts', active_index = t\<rparr>" by simp
  have "mset ts' = add_mset (ts ! a) (mset rest)" by (simp add: ts'_def mset_take_drop)
  also have "\<dots> = mset (take a ts @ ts ! a # drop (Suc a) ts)" by (simp add: rest_def)
  also have "\<dots> = mset ts" using a by (simp only: id_take_nth_drop [symmetric])
  finally have m: "mset ts' = mset ts" .
  then have "mset (map path ts') = mset (map path ts)" by simp
  then have d': "distinct (map path ts')" using d by (metis mset_eq_imp_distinct_iff)
  from m have l: "length ts' = length ts" by (metis size_mset)
  with t d' ne show ?thesis
    by (auto simp: s' ts invariants_def index_in_range_def unique_paths_def well_typed_def)
qed

text \<open>
  C1, amended. From a well-typed state that satisfies the two invariants (the active index
  is inside a non-empty list, no two tabs share a path), every command whose indices, for
  \<open>REORDER_TABS\<close>, lie in \<open>[0, length tabs)\<close> makes the reducer return a state, never an
  exception, and that state satisfies both invariants again. When the list was not empty,
  the new state is well-typed and not empty either.
\<close>

theorem reducer_preserves_invariants:
  assumes wt: "well_typed s" and inv: "invariants s" and rng: "indices_in_range s a"
  shows "\<exists>s' ws. createTabsReducer cfg w s a = Inr (s', ws) \<and> invariants s'
           \<and> (tabs s \<noteq> [] \<longrightarrow> well_typed s' \<and> tabs s' \<noteq> [])"
proof -
  from wt obtain ts where ts: "tabs s = map Entry ts" by (rule well_typed_obtain)
  from inv ts have d: "distinct (map path ts)" by (simp add: invariants_def unique_paths_def)
  from inv have r: "index_in_range s" by (simp add: invariants_def)
  note br = transition_branches [OF ts, of a]
  show ?thesis
  proof (cases "noop_branch s a")
    case True
    with br have "transition s a = Inr None" by simp
    then have "createTabsReducer cfg w s a = Inr (s, [])" by (simp add: createTabsReducer_def)
    with wt inv show ?thesis by blast
  next
    case False
    with br obtain s' where tr: "transition s a = Inr (Some s')" by blast
    then have res: "createTabsReducer cfg w s a = Inr (s', persist cfg w s')"
      by (simp add: createTabsReducer_def)
    have "invariants s' \<and> (tabs s \<noteq> [] \<longrightarrow> well_typed s' \<and> tabs s' \<noteq> [])"
    proof (cases a)
      case (ADD_TAB t)
      with tr add_tab_preserves [OF ts d] show ?thesis by blast
    next
      case (REPLACE_TAB t)
      with tr replace_tab_preserves [OF ts d r] show ?thesis by blast
    next
      case (CLOSE_TAB P)
      with tr close_tab_preserves [OF ts d r] show ?thesis by blast
    next
      case (CLOSE_OTHER_TABS P)
      with tr close_others_preserves [OF ts d] show ?thesis by blast
    next
      case (SET_ACTIVE_TAB P)
      with tr set_active_preserves [OF ts d] show ?thesis by blast
    next
      case (REORDER_TABS f t)
      with rng have "0 \<le> f" "f < int (length (tabs s))" "0 \<le> t" "t < int (length (tabs s))"
        by simp_all
      from reorder_preserves [OF ts d this] tr REORDER_TABS show ?thesis by blast
    next
      case (UPDATE_TAB_PARAMS P ps)
      with tr update_params_preserves [OF ts d] show ?thesis by blast
    qed
    with res show ?thesis by blast
  qed
qed

text \<open>The theorem at the reorder scenario of the specification: three tabs, \<open>REORDER_TABS 0 2\<close>.\<close>

theorem reducer_preserves_invariants_witness:
  "well_typed \<lparr>tabs = [Entry tab_a, Entry tab_b, Entry tab_c], active_index = 0\<rparr>
   \<and> invariants \<lparr>tabs = [Entry tab_a, Entry tab_b, Entry tab_c], active_index = 0\<rparr>
   \<and> indices_in_range \<lparr>tabs = [Entry tab_a, Entry tab_b, Entry tab_c], active_index = 0\<rparr>
        (REORDER_TABS 0 2)
   \<and> (\<exists>s' ws. createTabsReducer defaultConfig True
                  \<lparr>tabs = [Entry tab_a, Entry tab_b, Entry tab_c], active_index = 0\<rparr>
                  (REORDER_TABS 0 2) = Inr (s', ws)
          \<and> invariants s' \<and> well_typed s' \<and> tabs s' \<noteq> [])"
proof -
  let ?s = "\<lparr>tabs = [Entry tab_a, Entry tab_b, Entry tab_c], active_index = 0\<rparr>"
  have wt: "well_typed ?s" by (simp add: well_typed_def)
  have inv: "invariants ?s"
    by (simp add: invariants_def index_in_range_def unique_paths_def tab_a_def tab_b_def tab_c_def)
  have rng: "indices_in_range ?s (REORDER_TABS 0 2)" by simp
  from reducer_preserves_invariants [OF wt inv rng, of defaultConfig True] wt inv rng
  show ?thesis by (simp del: indices_in_range.simps)
qed

text \<open>
  C1 as stated fails for \<open>REORDER_TABS\<close> with an index outside the list: from a state that
  satisfies both invariants, \<open>REORDER_TABS 1 (-1)\<close> returns \<open>active_index = -1\<close>.
\<close>

theorem reorder_breaks_index_invariant:
  "well_typed \<lparr>tabs = [Entry tab_a, Entry tab_b], active_index = 0\<rparr>
   \<and> invariants \<lparr>tabs = [Entry tab_a, Entry tab_b], active_index = 0\<rparr>
   \<and> createTabsReducer defaultConfig True \<lparr>tabs = [Entry tab_a, Entry tab_b], active_index = 0\<rparr>
        (REORDER_TABS 1 (- 1))
      = Inr (\<lparr>tabs = [Entry tab_b, Entry tab_a], active_index = - 1\<rparr>,
             [SetItem ''tabrouter-tabs'' (JSON_stringify [Entry tab_b, Entry tab_a]),
              SetItem ''tabrouter-active-tab'' (String_of (- 1))])
   \<and> \<not> invariants \<lparr>tabs = [Entry tab_b, Entry tab_a], active_index = - 1\<rparr>"
  by (simp add: well_typed_def invariants_def index_in_range_def unique_paths_def
      createTabsReducer_def splice_def spread_def Let_def persist_def defaultConfig_def
      tab_a_def tab_b_def)

section \<open>Clicks on a Link\<close>

lemma some_tab_map_Entry: "some_tab p (map Entry ts) = Inr (\<exists>t \<in> set ts. p t)"
  by (induction ts) auto

text \<open>
  C8. A click on a Link that is rendered over a well-typed tab list, with the default not
  prevented once the caller's own \<open>onClick\<close> has run and no modifier key held, makes the
  handler call exactly one router operation: \<open>push\<close> when \<open>target\<close> is \<open>_blank\<close>; otherwise
  \<open>replace\<close> when the \<open>replace\<close> flag is set; otherwise \<open>switchToPath\<close> when a tab with the
  destination path is open; otherwise \<open>push\<close>.
\<close>

theorem link_click_calls_one_operation:
  assumes wt: "list_all is_Entry tabs_now"
    and e1: "e1 = (case onClick of None \<Rightarrow> e | Some handler \<Rightarrow> handler e)"
    and plain: "\<not> defaultPrevented e1" "\<not> metaKey e1" "\<not> ctrlKey e1" "\<not> shiftKey e1"
      "\<not> altKey e1"
  shows "\<exists>effs. Link_click tabs_now onClick target replace href w e = Inr effs
           \<and> facade_calls effs = [expected_call tabs_now target replace href]"
proof -
  from wt obtain ts where ts: "tabs_now = map Entry ts" using wt_map_Entry by blast
  have "(\<exists>t \<in> set ts. path t = href_path href) = (href_path href \<in> set (map path ts))"
    by force
  then have ex: "some_tab (\<lambda>tab. path tab = href_path href) tabs_now
            = Inr (href_path href \<in> set (map path (entries tabs_now)))"
    unfolding ts some_tab_map_Entry by simp
  show ?thesis
    using plain unfolding Link_click_def ex e1
    by (simp add: handleClick_def shouldSwitchToExisting_def expected_call_def Let_def)
qed

text \<open>The theorem at a plain click on a link to an open tab.\<close>

theorem link_click_calls_one_operation_witness:
  "Link_click [Entry tab_a, Entry tab_b] None None False
      \<lparr>href_path = ''/b'', href_params = [], href_hash = ''''\<rparr> True plain_click
   = Inr [PreventDefault, Facade (SwitchToPath ''/b'')]
   \<and> facade_calls [PreventDefault, Facade (SwitchToPath ''/b'')]
     = [expected_call [Entry tab_a, Entry tab_b] None False
          \<lparr>href_path = ''/b'', href_params = [], href_hash = ''''\<rparr>]"
proof -
  let ?h = "\<lparr>href_path = ''/b'', href_params = [], href_hash = ''''\<rparr>"
  have wt: "list_all is_Entry [Entry tab_a, Entry tab_b]" by simp
  have e1: "plain_click = (case None of None \<Rightarrow> plain_click | Some handler \<Rightarrow> handler plain_click)"
    by simp
  have p: "\<not> defaultPrevented plain_click" "\<not> metaKey plain_click" "\<not> ctrlKey plain_click"
    "\<not> shiftKey plain_click" "\<not> altKey plain_click"
    by (simp_all add: plain_click_def)
  from link_click_calls_one_operation [OF wt e1 p, of None False ?h True]
  obtain effs where effs: "Link_click [Entry tab_a, Entry tab_b] None None False ?h True plain_click = Inr effs"
    "facade_calls effs = [expected_call [Entry tab_a, Entry tab_b] None False ?h]"
    by blast
  have "Link_click [Entry tab_a, Entry tab_b] None None False ?h True plain_click
        = Inr [PreventDefault, Facade (SwitchToPath ''/b'')]"
    by (simp add: Link_click_def handleClick_def shouldSwitchToExisting_def plain_click_def
        tab_a_def tab_b_def)
  with effs show ?thesis by simp
qed

section \<open>Initial state from storage\<close>

text \<open>
  C2, amended. \<open>getInitialState\<close> returns the single-tab default state when \<open>window\<close> is
  undefined. With a window it falls back field by field: \<open>tabs\<close> is the single default tab
  whenever the stored tab list is absent, empty or parses to a falsy value, whatever the
  stored index is; \<open>active_index\<close> is 0 whenever the stored index is absent, empty or
  converts to 0 or \<open>NaN\<close>, whatever the stored tab list is, if the call returns; with both,
  the result is the default state. The call raises an exception exactly when there is a
  window and \<open>JSON.parse\<close> throws on the non-empty stored tab list. A parsed value that is
  truthy (an object, an empty array) is returned as \<open>tabs\<close> as it is, and a stored index
  that converts to a truthy number is returned as \<open>active_index\<close> as it is, inside the list
  or not.
\<close>

theorem getInitialState_field_fallbacks:
  "(\<not> has_window e \<longrightarrow> getInitialState e cfg = Inr (default_state cfg))
   \<and> (has_window e
        \<and> (case getItem e (storageKey cfg) of
              None \<Rightarrow> True
            | Some str \<Rightarrow> str = [] \<or> (\<exists>v. JSON_parse e str = Inr v \<and> \<not> truthy v))
      \<longrightarrow> (\<exists>st. getInitialState e cfg = Inr st \<and> init_tabs st = JArr [initialTab cfg]))
   \<and> (\<forall>st. has_window e
            \<and> (case getItem e (activeTabStorageKey cfg) of
                  None \<Rightarrow> True
                | Some str \<Rightarrow> str = [] \<or> \<not> truthy_number (Number_of e str))
            \<and> getInitialState e cfg = Inr st
        \<longrightarrow> init_active_index st = Fin 0)
   \<and> (has_window e
        \<and> (case getItem e (storageKey cfg) of
              None \<Rightarrow> True
            | Some str \<Rightarrow> str = [] \<or> (\<exists>v. JSON_parse e str = Inr v \<and> \<not> truthy v))
        \<and> (case getItem e (activeTabStorageKey cfg) of
              None \<Rightarrow> True
            | Some str \<Rightarrow> str = [] \<or> \<not> truthy_number (Number_of e str))
      \<longrightarrow> getInitialState e cfg = Inr (default_state cfg))
   \<and> ((\<exists>err. getInitialState e cfg = Inl err)
        \<longleftrightarrow> has_window e
            \<and> (\<exists>str err. getItem e (storageKey cfg) = Some str \<and> str \<noteq> []
                          \<and> JSON_parse e str = Inl err))
   \<and> (\<forall>str v. has_window e \<and> getItem e (storageKey cfg) = Some str \<and> str \<noteq> []
                \<and> JSON_parse e str = Inr v \<and> truthy v
        \<longrightarrow> (\<exists>st. getInitialState e cfg = Inr st \<and> init_tabs st = v))
   \<and> (\<forall>str st. has_window e \<and> getItem e (activeTabStorageKey cfg) = Some str \<and> str \<noteq> []
                \<and> truthy_number (Number_of e str) \<and> getInitialState e cfg = Inr st
        \<longrightarrow> init_active_index st = Number_of e str)"
  unfolding getInitialState_def default_state_def Let_def
  by (auto split: option.splits sum.splits)

text \<open>
  The field-by-field parts of the theorem: a stored index 7 with no stored tab list, and a
  stored empty array with no stored index.
\<close>

theorem getInitialState_field_fallbacks_witness:
  "has_window (sample_env None (Some ''7''))
   \<and> getItem (sample_env None (Some ''7'')) (storageKey defaultConfig) = None
   \<and> (\<exists>st. getInitialState (sample_env None (Some ''7'')) defaultConfig = Inr st
          \<and> init_tabs st = JArr [initialTab defaultConfig])
   \<and> has_window (sample_env (Some ''[]'') None)
   \<and> getItem (sample_env (Some ''[]'') None) (activeTabStorageKey defaultConfig) = None
   \<and> getInitialState (sample_env (Some ''[]'') None) defaultConfig
     = Inr \<lparr>init_tabs = JArr [], init_active_index = Fin 0\<rparr>
   \<and> init_active_index \<lparr>init_tabs = JArr [], init_active_index = Fin 0\<rparr> = Fin 0"
proof -
  let ?e1 = "sample_env None (Some ''7'')"
  let ?e2 = "sample_env (Some ''[]'') None"
  have h1: "has_window ?e1" and h2: "has_window ?e2" by (simp_all add: sample_env_def)
  have g1: "getItem ?e1 (storageKey defaultConfig) = None"
    by (simp add: sample_env_def defaultConfig_def)
  have g2: "getItem ?e2 (activeTabStorageKey defaultConfig) = None"
    by (simp add: sample_env_def defaultConfig_def)
  have r2: "getInitialState ?e2 defaultConfig = Inr \<lparr>init_tabs = JArr [], init_active_index = Fin 0\<rparr>"
    by (simp add: getInitialState_def sample_env_def sample_parse_def defaultConfig_def)
  have a: "\<exists>st. getInitialState ?e1 defaultConfig = Inr st
          \<and> init_tabs st = JArr [initialTab defaultConfig]"
    using getInitialState_field_fallbacks [of ?e1 defaultConfig, THEN conjunct2, THEN conjunct1]
      h1 g1 by simp
  have b: "init_active_index \<lparr>init_tabs = JArr [], init_active_index = Fin 0\<rparr> = Fin 0"
    using getInitialState_field_fallbacks [of ?e2 defaultConfig, THEN conjunct2, THEN conjunct2,
        THEN conjunct1, rule_format, of "\<lparr>init_tabs = JArr [], init_active_index = Fin 0\<rparr>"]
      h2 g2 r2 by simp
  from h1 g1 a h2 g2 r2 b show ?thesis by blast
qed

text \<open>
  C2 as stated fails in each of its cases: an unparseable snapshot makes the call throw,
  a parsed object and a parsed empty array are returned as the tab list, and the stored
  index 7 is returned for the one-tab default list.
\<close>

theorem getInitialState_keeps_malformed_data:
  "getInitialState (sample_env (Some ''{not json'') None) defaultConfig = Inl SyntaxError
   \<and> getInitialState (sample_env (Some ''{}'') None) defaultConfig
     = Inr \<lparr>init_tabs = JObj [], init_active_index = Fin 0\<rparr>
   \<and> getInitialState (sample_env (Some ''[]'') None) defaultConfig
     = Inr \<lparr>init_tabs = JArr [], init_active_index = Fin 0\<rparr>
   \<and> getInitialState (sample_env None (Some ''7'')) defaultConfig
     = Inr \<lparr>init_tabs = JArr [JObj [(''path'', JStr ''/''), (''params'', JObj [])]],
            init_active_index = Fin 7\<rparr>
   \<and> default_state defaultConfig
     = \<lparr>init_tabs = JArr [JObj [(''path'', JStr ''/''), (''params'', JObj [])]],
        init_active_index = Fin 0\<rparr>"
  by (simp add: getInitialState_def sample_env_def sample_parse_def sample_number_def
      defaultConfig_def default_state_def initialTab_def)

end
